theory Spec2Isabelle
  imports Main
begin

section \<open>Python values used by \<open>q2doc/usage/usage.py\<close>\<close>

text \<open>
  Exceptions are values: every function that can raise returns \<open>py_error + 'a\<close>,
  with \<open>Inl\<close> for the exception. \<open>Raised\<close> stands for any exception thrown by
  code outside the module (the executed block, the validator).
\<close>

datatype py_error =
    IndexError | KeyError | TypeError | ValueError | AttributeError | SyntaxError
  | Raised string

text \<open>
  The result held by a usage record. An \<open>Artifact\<close> carries its semantic type (the
  attribute \<open>type\<close>), a \<open>Metadata\<close> the text of \<open>str(to_dataframe())\<close>. Both have
  \<open>save\<close>. \<open>Opaque\<close> is any other object: it has none of the three attributes.
\<close>

datatype result_value = Artifact string | Metadata string | Opaque

text \<open>
  \<open>qiime2.sdk.usage.ScopeRecord\<close>: an object with the attributes \<open>ref\<close>,
  \<open>source\<close> and \<open>result\<close>. It defines no iteration protocol.
\<close>

record ScopeRecord =
  ref :: string
  source :: string
  result :: result_value

text \<open>
  What \<open>get_new_records\<close> hands on: either a tuple of records or, because
  \<open>operator.itemgetter\<close> with one key returns the item itself, one bare record.
\<close>

datatype new_records = Bare ScopeRecord | Tuple "ScopeRecord list"

text \<open>
  \<open>for record in records\<close>: a tuple yields its elements; a bare \<open>ScopeRecord\<close> is
  not iterable, so the loop header raises \<open>TypeError\<close>.
\<close>

fun py_iter :: "new_records \<Rightarrow> py_error + ScopeRecord list" where
  "py_iter (Tuple rs) = Inr rs"
| "py_iter (Bare r) = Inl TypeError"

text \<open>
  A Python \<open>dict\<close> with string keys is an association list in insertion order;
  \<open>d[k]\<close> is \<open>map_of d k\<close> and raises \<open>KeyError\<close> for a missing key.
\<close>

type_synonym records_dict = "(string \<times> ScopeRecord) list"

definition getitem :: "records_dict \<Rightarrow> string \<Rightarrow> py_error + ScopeRecord" where
  "getitem d k = (case map_of d k of None \<Rightarrow> Inl KeyError | Some r \<Rightarrow> Inr r)"

fun getitems :: "records_dict \<Rightarrow> string list \<Rightarrow> py_error + ScopeRecord list" where
  "getitems d [] = Inr []"
| "getitems d (k # ks) =
     (case getitem d k of
        Inl e \<Rightarrow> Inl e
      | Inr r \<Rightarrow> (case getitems d ks of Inl e \<Rightarrow> Inl e | Inr rs \<Rightarrow> Inr (r # rs)))"

text \<open>
  \<open>operator.itemgetter(*keys)(d)\<close>: no key is a \<open>TypeError\<close> of the constructor,
  one key gives the item, two or more give the tuple of the items.
\<close>

fun itemgetter :: "string list \<Rightarrow> records_dict \<Rightarrow> py_error + new_records" where
  "itemgetter [] d = Inl TypeError"
| "itemgetter [k] d = (case getitem d k of Inl e \<Rightarrow> Inl e | Inr r \<Rightarrow> Inr (Bare r))"
| "itemgetter ks d = (case getitems d ks of Inl e \<Rightarrow> Inl e | Inr rs \<Rightarrow> Inr (Tuple rs))"

section \<open>New records and the processed list\<close>

text \<open>
  \<open>new_record_keys\<close> of the source: the keys of the dictionary, in its order, that are
  not in \<open>processed_records\<close>.
\<close>

definition new_record_keys :: "records_dict \<Rightarrow> string list \<Rightarrow> string list" where
  "new_record_keys recs processed_records =
     filter (\<lambda>k. k \<notin> set processed_records) (map fst recs)"

text \<open>
  \<open>get_new_records\<close>, applied to the dictionary \<open>use._get_records()\<close>.
\<close>

definition get_new_records :: "records_dict \<Rightarrow> string list \<Rightarrow> py_error + new_records" where
  "get_new_records recs processed_records =
     (let ks = new_record_keys recs processed_records
      in if ks \<noteq> [] then itemgetter ks recs else Inr (Tuple []))"

text \<open>
  \<open>update_processed_records\<close>: the comprehension iterates \<open>new_records\<close>, then the
  list is extended in place; the model returns the extended list.
\<close>

definition update_processed_records ::
  "new_records \<Rightarrow> string list \<Rightarrow> py_error + string list" where
  "update_processed_records new_recs processed_records =
     (case py_iter new_recs of
        Inl e \<Rightarrow> Inl e
      | Inr rs \<Rightarrow> Inr (processed_records @ map ref rs))"

section \<open>Paths and strings\<close>

text \<open>
  \<open>s.split(c)\<close> of Python: the pieces between the separators, empty pieces kept.
\<close>

fun split_on :: "char \<Rightarrow> string \<Rightarrow> string list" where
  "split_on c [] = [[]]"
| "split_on c (x # xs) =
     (if x = c then [] # split_on c xs
      else (case split_on c xs of [] \<Rightarrow> [[x]] | w # ws \<Rightarrow> (x # w) # ws))"

text \<open>
  \<open>sep.join(xs)\<close> of Python.
\<close>

fun join_with :: "string \<Rightarrow> string list \<Rightarrow> string" where
  "join_with sep [] = []"
| "join_with sep [x] = x"
| "join_with sep (x # y # ys) = x @ sep @ join_with sep (y # ys)"

text \<open>
  A \<open>pathlib.Path\<close> on a POSIX system is the tuple of its parts: the root (\<open>/\<close>, or
  \<open>//\<close> for exactly two leading slashes) if there is one, then the components that
  are neither empty nor a single dot.
\<close>

type_synonym Path = "string list"

definition path_root :: "string \<Rightarrow> string" where
  "path_root s =
     (if take 2 s = ''//'' \<and> take 3 s \<noteq> ''///'' then ''//''
      else if take 1 s = ''/'' then ''/'' else [])"

definition Path :: "string \<Rightarrow> Path" where
  "Path s =
     (if path_root s = [] then [] else [path_root s])
     @ filter (\<lambda>c. c \<noteq> [] \<and> c \<noteq> ''.'') (split_on CHR ''/'' s)"

definition is_absolute :: "Path \<Rightarrow> bool" where
  "is_absolute p = (case p of [] \<Rightarrow> False | x # _ \<Rightarrow> take 1 x = ''/'')"

text \<open>\<open>str(path)\<close>.\<close>

definition path_str :: "Path \<Rightarrow> string" where
  "path_str p =
     (case p of
        [] \<Rightarrow> ''.''
      | x # xs \<Rightarrow> if is_absolute p then x @ join_with ''/'' xs else join_with ''/'' p)"

text \<open>\<open>a / b\<close> of pathlib: an absolute right operand replaces the left one.\<close>

definition truediv :: "Path \<Rightarrow> Path \<Rightarrow> Path" where
  "truediv a b = (if is_absolute b then b else a @ b)"

text \<open>\<open>path.name\<close>: the last part, empty for the empty path and for a bare root.\<close>

definition path_name :: "Path \<Rightarrow> string" where
  "path_name p =
     (if p = [] \<or> (length p = 1 \<and> is_absolute p) then [] else last p)"

text \<open>\<open>s.rfind(c)\<close>: the last index of the character, or \<open>-1\<close>.\<close>

definition rfind :: "char \<Rightarrow> string \<Rightarrow> int" where
  "rfind c s =
     (if c \<in> set s
      then int (length s) - 1 - int (length (takeWhile (\<lambda>x. x \<noteq> c) (rev s)))
      else - 1)"

text \<open>
  \<open>path.stem\<close>: the name without its last suffix; a dot at the first or at the last
  position of the name does not start a suffix.
\<close>

definition stem :: "Path \<Rightarrow> string" where
  "stem p =
     (let nm = path_name p; i = rfind CHR ''.'' nm
      in if 0 < i \<and> i < int (length nm) - 1 then take (nat i) nm else nm)"

text \<open>\<open>os.path.join(a, b)\<close> of posixpath, for two arguments.\<close>

definition os_path_join :: "string \<Rightarrow> string \<Rightarrow> string" where
  "os_path_join a b =
     (if take 1 b = ''/'' then b
      else if a = [] \<or> last a = CHR ''/'' then a @ b
      else a @ ''/'' @ b)"

text \<open>\<open>s.rstrip('/')\<close>.\<close>

definition rstrip_slash :: "string \<Rightarrow> string" where
  "rstrip_slash s = rev (dropWhile (\<lambda>c. c = CHR ''/'') (rev s))"

text \<open>How an f-string formats an attribute that may be \<open>None\<close>.\<close>

fun fstr :: "string option \<Rightarrow> string" where
  "fstr None = ''None''"
| "fstr (Some s) = s"

text \<open>
  What \<open>render()\<close> returns: a string or a sequence of strings. \<open>"".join(x)\<close> accepts
  both: a string is the sequence of its characters.
\<close>

datatype rendered = Str string | Seq "string list"

fun py_join :: "rendered \<Rightarrow> string" where
  "py_join (Str s) = s"
| "py_join (Seq xs) = concat xs"

section \<open>Documentation nodes\<close>

text \<open>
  Modelled from the spec: \<open>q2doc/usage/nodes.py\<close> is not part of the sources. The spec
  names five kinds of node (generic usage node, example node, data node, metadata node,
  factory node). The module reads \<open>factory\<close>, \<open>name\<close> and \<open>source\<close> from any node of a
  block and passes \<open>name=\<close> to the data and metadata nodes, so these three attributes
  are common to all kinds; \<open>titles\<close> and \<open>examples\<close> belong to the example node,
  \<open>ref\<close> and \<open>preview\<close> to the factory node. \<open>source\<close> is the docutils attribute,
  \<open>None\<close> on a node that no parser has positioned.
\<close>

datatype node_kind =
    Placeholder
  | Example "string list" "rendered list"
  | Data string string
  | MetadataPreview string string
  | Factory string string string "string option" "string option"

record node =
  factory :: bool
  name :: "string option"
  node_source :: "string option"
  kind :: node_kind

text \<open>
  Modelled from the spec: the constructors of \<open>nodes.py\<close>, called as the module calls
  them. An attribute the call does not give keeps its default: not a factory, no name,
  no source, no preview.
\<close>

definition UsageExampleNode :: "string list \<Rightarrow> rendered list \<Rightarrow> node" where
  "UsageExampleNode titles examples =
     \<lparr>factory = False, name = None, node_source = None, kind = Example titles examples\<rparr>"

definition UsageDataNode :: "string \<Rightarrow> string \<Rightarrow> string \<Rightarrow> node" where
  "UsageDataNode stype load_statement nm =
     \<lparr>factory = False, name = Some nm, node_source = None,
      kind = Data stype load_statement\<rparr>"

definition UsageMetadataNode :: "string \<Rightarrow> string \<Rightarrow> string \<Rightarrow> node" where
  "UsageMetadataNode load_statement metadata_preview nm =
     \<lparr>factory = False, name = Some nm, node_source = None,
      kind = MetadataPreview load_statement metadata_preview\<rparr>"

definition FactoryNode :: "string \<Rightarrow> string \<Rightarrow> string \<Rightarrow> string option \<Rightarrow> node" where
  "FactoryNode relative_url absolute_url saveas r =
     \<lparr>factory = False, name = None, node_source = None,
      kind = Factory relative_url absolute_url saveas r None\<rparr>"

text \<open>
  \<open>get_docname\<close>: the last two parts of the node's source path; the second without its
  suffix. \<open>Path(None)\<close> raises \<open>TypeError\<close>; unpacking fewer than two parts raises
  \<open>ValueError\<close>.
\<close>

definition get_docname :: "node \<Rightarrow> py_error + (Path \<times> Path)" where
  "get_docname n =
     (case node_source n of
        None \<Rightarrow> Inl TypeError
      | Some s \<Rightarrow>
          (let ps = Path s
           in case drop (length ps - 2) ps of
                [p, q] \<Rightarrow> Inr (Path p, Path (stem (Path q)))
              | _ \<Rightarrow> Inl ValueError))"

section \<open>Usage objects, the file system and the build environment\<close>

text \<open>
  The classes of the usage objects, as \<open>functools.singledispatch\<close> sees them.
  \<open>OtherUsage\<close> is any class without a registered handler.
\<close>

datatype usage_class =
  DiagnosticUsage | CLIUsage | ArtifactAPIUsage | ExecutionUsage | OtherUsage

text \<open>
  The state of one usage object: the dictionary behind \<open>_get_records()\<close>, what
  \<open>render()\<close> returns, and how often \<open>render()\<close> has been called.
\<close>

record usage =
  records :: records_dict
  rendering :: rendered
  render_calls :: nat

text \<open>
  Everything the module reaches outside its arguments: the usage objects (the values of
  \<open>MetaUsage\<close>, one per class), the working directory, and the directories and saved
  files of the file system.
\<close>

record world =
  MetaUsage :: "usage_class \<Rightarrow> usage"
  cwd :: string
  dirs :: "string list"
  files :: "(string \<times> result_value) list"

text \<open>
  Modelled from the spec: \<open>q2doc/usage/meta_usage.py\<close> is not part of the sources. The
  spec gives the enumeration as the fixed, ordered set diagnostic, command-line,
  artifact-API, execution.
\<close>

definition MetaUsage_members :: "usage_class list" where
  "MetaUsage_members = [DiagnosticUsage, CLIUsage, ArtifactAPIUsage, ExecutionUsage]"

text \<open>\<open>use._get_record(ref)\<close>; a missing reference (or \<open>None\<close>) is a \<open>KeyError\<close>.\<close>

definition get_record :: "usage \<Rightarrow> string option \<Rightarrow> py_error + ScopeRecord" where
  "get_record u r = (case r of None \<Rightarrow> Inl KeyError | Some k \<Rightarrow> getitem (records u) k)"

text \<open>\<open>use.render()\<close> on the usage object of class \<open>use\<close>.\<close>

definition render :: "usage_class \<Rightarrow> world \<Rightarrow> rendered \<times> world" where
  "render use w =
     (let u = MetaUsage w use
      in (rendering u,
          w\<lparr>MetaUsage := (MetaUsage w)(use := u\<lparr>render_calls := Suc (render_calls u)\<rparr>)\<rparr>))"

text \<open>
  A code block of the build environment: its source text, the syntax tree once parsed,
  and its list of nodes.
\<close>

record 't block =
  code :: string
  tree :: "'t option"
  nodes :: "node list"

record 't env =
  srcdir :: string
  usage_blocks :: "'t block list"
  base_url :: string
  outdir :: string

text \<open>
  The Python run time, as far as the module calls it: \<open>ast.parse\<close>, \<open>exec\<close> of the
  compiled tree with \<open>use\<close> bound to the usage object of the given class, and
  \<open>BlockValidator().visit\<close> (\<open>validation.py\<close> is not part of the sources).
\<close>

record 't python =
  ast_parse :: "string \<Rightarrow> py_error + 't"
  exec :: "'t \<Rightarrow> usage_class \<Rightarrow> world \<Rightarrow> py_error + world"
  visit :: "'t \<Rightarrow> py_error + unit"

section \<open>The handlers of \<open>records_to_nodes\<close>\<close>

text \<open>\<open>diagnostic\<close>: validate the tree stored in the block.\<close>

definition diagnostic ::
  "'t python \<Rightarrow> usage_class \<Rightarrow> new_records \<Rightarrow> 't block \<Rightarrow> 't env \<Rightarrow> world
     \<Rightarrow> py_error + ('t block \<times> world)" where
  "diagnostic py use recs blk e w =
     (case tree blk of
        None \<Rightarrow> Inl KeyError
      | Some t \<Rightarrow> (case visit py t of Inl err \<Rightarrow> Inl err | Inr _ \<Rightarrow> Inr (blk, w)))"

text \<open>
  \<open>factories_to_nodes\<close>: \<open>pop()\<close> takes the last node of the list; the factory node
  built from it is appended.
\<close>

definition factories_to_nodes :: "'t block \<Rightarrow> 't env \<Rightarrow> py_error + 't block" where
  "factories_to_nodes blk e =
     (case rev (nodes blk) of
        [] \<Rightarrow> Inl IndexError
      | n # _ \<Rightarrow>
          (case get_docname n of
             Inl err \<Rightarrow> Inl err
           | Inr (root, doc_name) \<Rightarrow>
               (let base = rstrip_slash (base_url e);
                    nm = fstr (name n) @ ''.qza'';
                    relative_url = ''results/'' @ nm;
                    absolute_url = base @ ''/'' @ path_str doc_name @ ''/'' @ relative_url;
                    factory_node = FactoryNode relative_url absolute_url nm (name n)
                in Inr (blk\<lparr>nodes := butlast (nodes blk) @ [factory_node]\<rparr>))))"

text \<open>
  Python's \<open>or\<close> returns its first operand if that is truthy, else the second; a
  string is truthy when it is not empty.
\<close>

datatype py_value = PyBool bool | PyStr string

fun truthy :: "py_value \<Rightarrow> bool" where
  "truthy (PyBool b) = b"
| "truthy (PyStr s) = (s \<noteq> [])"

definition py_or :: "py_value \<Rightarrow> py_value \<Rightarrow> py_value" where
  "py_or a b = (if truthy a then a else b)"

text \<open>The guard of the save in \<open>execution\<close>, as written in the source.\<close>

definition save_guard :: "ScopeRecord \<Rightarrow> bool" where
  "save_guard r =
     truthy (py_or (PyBool (source r = ''init_metadata'')) (PyStr ''init_data''))"

text \<open>\<open>artifact.save(path)\<close>: an object without \<open>save\<close> raises \<open>AttributeError\<close>.\<close>

definition save :: "result_value \<Rightarrow> string \<Rightarrow> world \<Rightarrow> py_error + world" where
  "save artifact path w =
     (case artifact of
        Opaque \<Rightarrow> Inl AttributeError
      | _ \<Rightarrow> Inr (w\<lparr>files := files w @ [(path, artifact)]\<rparr>))"

text \<open>The loop over the records in \<open>execution\<close>.\<close>

fun save_records :: "string \<Rightarrow> ScopeRecord list \<Rightarrow> world \<Rightarrow> py_error + world" where
  "save_records out_dir [] w = Inr w"
| "save_records out_dir (r # rest) w =
     (let artifact = result r;
          path = os_path_join out_dir (ref r @ ''.qza'')
      in if save_guard r
         then (case save artifact path w of
                 Inl err \<Rightarrow> Inl err
               | Inr w' \<Rightarrow> save_records out_dir rest w')
         else save_records out_dir rest w)"

text \<open>\<open>out_dir.exists()\<close> and \<open>out_dir.mkdir(parents=True)\<close>.\<close>

definition path_exists :: "world \<Rightarrow> string \<Rightarrow> bool" where
  "path_exists w p = (p \<in> set (dirs w) \<or> p \<in> fst ` set (files w))"

definition mkdir :: "string \<Rightarrow> world \<Rightarrow> world" where
  "mkdir p w = w\<lparr>dirs := dirs w @ [p]\<rparr>"

text \<open>The output directory \<open>Path(env.app.outdir) / doc_name / 'results'\<close>.\<close>

definition results_dir :: "'t env \<Rightarrow> Path \<Rightarrow> string" where
  "results_dir e doc_name =
     path_str (truediv (truediv (Path (outdir e)) doc_name) (Path ''results''))"

text \<open>
  \<open>execution\<close>: the first node is read before anything else; the directory is made if
  it is missing; a block whose first node is a factory is converted; then every record
  is visited.
\<close>

definition execution ::
  "usage_class \<Rightarrow> new_records \<Rightarrow> 't block \<Rightarrow> 't env \<Rightarrow> world
     \<Rightarrow> py_error + ('t block \<times> world)" where
  "execution use recs blk e w =
     (case nodes blk of
        [] \<Rightarrow> Inl IndexError
      | n # _ \<Rightarrow>
          (case get_docname n of
             Inl err \<Rightarrow> Inl err
           | Inr (root, doc_name) \<Rightarrow>
               (let out_dir = results_dir e doc_name;
                    w1 = (if \<not> path_exists w out_dir then mkdir out_dir w else w)
                in case (if factory n then factories_to_nodes blk e else Inr blk) of
                     Inl err \<Rightarrow> Inl err
                   | Inr blk1 \<Rightarrow>
                       (case py_iter recs of
                          Inl err \<Rightarrow> Inl err
                        | Inr rs \<Rightarrow>
                            (case save_records out_dir rs w1 of
                               Inl err \<Rightarrow> Inl err
                             | Inr w2 \<Rightarrow> Inr (blk1, w2))))))"

text \<open>
  \<open>cli\<close>: the loop stops at the first record whose source is \<open>action\<close>, after it has
  rendered once and put the one example node in place of the node list.
\<close>

fun cli_loop :: "usage_class \<Rightarrow> ScopeRecord list \<Rightarrow> 't block \<Rightarrow> world \<Rightarrow> 't block \<times> world" where
  "cli_loop use [] blk w = (blk, w)"
| "cli_loop use (r # rest) blk w =
     (if source r = ''action''
      then (case render use w of
              (out, w') \<Rightarrow>
                (let example = py_join out;
                     n = UsageExampleNode [''Command Line''] [Str example]
                 in (blk\<lparr>nodes := [n]\<rparr>, w')))
      else cli_loop use rest blk w)"

definition cli ::
  "usage_class \<Rightarrow> new_records \<Rightarrow> 't block \<Rightarrow> 't env \<Rightarrow> world
     \<Rightarrow> py_error + ('t block \<times> world)" where
  "cli use recs blk e w =
     (case py_iter recs of Inl err \<Rightarrow> Inl err | Inr rs \<Rightarrow> Inr (cli_loop use rs blk w))"

text \<open>
  \<open>init_data_node\<close> and \<open>init_metadata_node\<close>: both look the record up in the
  execution usage object.
\<close>

definition init_data_node :: "ScopeRecord \<Rightarrow> world \<Rightarrow> py_error + node" where
  "init_data_node r w =
     (let nm = ref r; fname = nm @ ''.qza''
      in case get_record (MetaUsage w ExecutionUsage) (Some nm) of
           Inl err \<Rightarrow> Inl err
         | Inr er \<Rightarrow>
             (case result er of
                Artifact stype \<Rightarrow>
                  Inr (UsageDataNode stype
                         (nm @ '' = qiime2.Artifact.load('' @ [CHR 0x27] @ fname
                            @ [CHR 0x27] @ '')'') nm)
              | _ \<Rightarrow> Inl AttributeError))"

definition init_metadata_node :: "ScopeRecord \<Rightarrow> world \<Rightarrow> py_error + node" where
  "init_metadata_node r w =
     (let nm = ref r; fname = nm @ ''.qza''
      in case get_record (MetaUsage w ExecutionUsage) (Some nm) of
           Inl err \<Rightarrow> Inl err
         | Inr er \<Rightarrow>
             (case result er of
                Metadata df \<Rightarrow>
                  Inr (UsageMetadataNode
                         (nm @ '' = qiime2.Metadata.load('' @ [CHR 0x27] @ fname
                            @ [CHR 0x27] @ '')'') df nm)
              | _ \<Rightarrow> Inl AttributeError))"

text \<open>
  The \<open>action\<close> branch of \<open>artifact_api\<close>: the first node of the list, one call of
  \<open>render\<close>, then the two appends, which need the attributes of an example node.
\<close>

definition append_example ::
  "usage_class \<Rightarrow> 't block \<Rightarrow> world \<Rightarrow> py_error + ('t block \<times> world)" where
  "append_example use blk w =
     (case nodes blk of
        [] \<Rightarrow> Inl IndexError
      | n # others \<Rightarrow>
          (case render use w of
             (example, w') \<Rightarrow>
               (case kind n of
                  Example titles examples \<Rightarrow>
                    Inr (blk\<lparr>nodes :=
                           n\<lparr>kind := Example (titles @ [''Artifact API''])
                                              (examples @ [example])\<rparr> # others\<rparr>, w')
                | _ \<Rightarrow> Inl AttributeError)))"

fun api_loop ::
  "usage_class \<Rightarrow> ScopeRecord list \<Rightarrow> 't block \<Rightarrow> world \<Rightarrow> py_error + ('t block \<times> world)" where
  "api_loop use [] blk w = Inr (blk, w)"
| "api_loop use (r # rest) blk w =
     (if source r = ''init_data''
      then (case init_data_node r w of
              Inl err \<Rightarrow> Inl err
            | Inr data_node \<Rightarrow> api_loop use rest (blk\<lparr>nodes := nodes blk @ [data_node]\<rparr>) w)
      else if source r = ''init_metadata''
      then (case init_metadata_node r w of
              Inl err \<Rightarrow> Inl err
            | Inr metadata_node \<Rightarrow>
                api_loop use rest (blk\<lparr>nodes := nodes blk @ [metadata_node]\<rparr>) w)
      else if source r = ''action''
      then append_example use blk w
      else api_loop use rest blk w)"

definition artifact_api ::
  "usage_class \<Rightarrow> new_records \<Rightarrow> 't block \<Rightarrow> 't env \<Rightarrow> world
     \<Rightarrow> py_error + ('t block \<times> world)" where
  "artifact_api use recs blk e w =
     (case py_iter recs of Inl err \<Rightarrow> Inl err | Inr rs \<Rightarrow> api_loop use rs blk w)"

text \<open>
  \<open>records_to_nodes\<close>: single dispatch on the class of \<open>use\<close>; the generic function
  does nothing.
\<close>

definition records_to_nodes ::
  "'t python \<Rightarrow> usage_class \<Rightarrow> new_records \<Rightarrow> 't block \<Rightarrow> 't env \<Rightarrow> world
     \<Rightarrow> py_error + ('t block \<times> world)" where
  "records_to_nodes py use recs blk e w =
     (case use of
        DiagnosticUsage \<Rightarrow> diagnostic py use recs blk e w
      | ExecutionUsage \<Rightarrow> execution use recs blk e w
      | CLIUsage \<Rightarrow> cli use recs blk e w
      | ArtifactAPIUsage \<Rightarrow> artifact_api use recs blk e w
      | OtherUsage \<Rightarrow> Inr (blk, w))"

section \<open>The node updater\<close>

text \<open>
  The document tree, as far as the module sees it: the sequence of its nodes in
  traversal order. \<open>Usage n\<close> is a node that \<open>traverse(UsageNode)\<close> finds, \<open>Other\<close>
  any other node. \<open>traverse\<close> returns a list, so the nodes to visit are fixed before
  the first replacement.
\<close>

datatype doc_item = Other | Usage node

text \<open>
  The first loop of \<open>update_nodes\<close>: the blocks are paired with the usage nodes in
  order (\<open>zip\<close> stops at the shorter sequence) and \<open>replace_self\<close> splices the block's
  node list in at the node's place.
\<close>

fun replace_placeholders :: "'t block list \<Rightarrow> doc_item list \<Rightarrow> doc_item list" where
  "replace_placeholders [] doc = doc"
| "replace_placeholders (b # bs) [] = []"
| "replace_placeholders (b # bs) (Other # doc) = Other # replace_placeholders (b # bs) doc"
| "replace_placeholders (b # bs) (Usage n # doc) =
     map Usage (nodes b) @ replace_placeholders bs doc"

text \<open>\<open>isinstance(node, FactoryNode)\<close>.\<close>

fun is_FactoryNode :: "doc_item \<Rightarrow> bool" where
  "is_FactoryNode (Usage n) = (case kind n of Factory _ _ _ _ _ \<Rightarrow> True | _ \<Rightarrow> False)"
| "is_FactoryNode Other = False"

text \<open>
  The body of the second loop for one factory node: look the record up in the
  execution usage object and set the preview when its result is a \<open>Metadata\<close>.
\<close>

definition set_preview :: "usage \<Rightarrow> node \<Rightarrow> py_error + node" where
  "set_preview ex n =
     (case kind n of
        Factory rel ab saveas r pv \<Rightarrow>
          (case get_record ex r of
             Inl err \<Rightarrow> Inl err
           | Inr er \<Rightarrow>
               (case result er of
                  Metadata df \<Rightarrow> Inr (n\<lparr>kind := Factory rel ab saveas r (Some df)\<rparr>)
                | _ \<Rightarrow> Inr n))
      | _ \<Rightarrow> Inr n)"

text \<open>
  The second loop of \<open>update_nodes\<close>: the blocks are paired with the factory nodes of
  the updated tree; only the node of each pair is used.
\<close>

fun preview_factories ::
  "usage \<Rightarrow> 't block list \<Rightarrow> doc_item list \<Rightarrow> py_error + doc_item list" where
  "preview_factories ex [] doc = Inr doc"
| "preview_factories ex (b # bs) [] = Inr []"
| "preview_factories ex (b # bs) (Other # doc) =
     (case preview_factories ex (b # bs) doc of
        Inl err \<Rightarrow> Inl err
      | Inr doc' \<Rightarrow> Inr (Other # doc'))"
| "preview_factories ex (b # bs) (Usage n # doc) =
     (if is_FactoryNode (Usage n)
      then (case set_preview ex n of
              Inl err \<Rightarrow> Inl err
            | Inr n' \<Rightarrow>
                (case preview_factories ex bs doc of
                   Inl err \<Rightarrow> Inl err
                 | Inr doc' \<Rightarrow> Inr (Usage n' # doc')))
      else (case preview_factories ex (b # bs) doc of
              Inl err \<Rightarrow> Inl err
            | Inr doc' \<Rightarrow> Inr (Usage n # doc')))"

definition update_nodes :: "doc_item list \<Rightarrow> 't env \<Rightarrow> world \<Rightarrow> py_error + doc_item list" where
  "update_nodes doctree e w =
     preview_factories (MetaUsage w ExecutionUsage) (usage_blocks e)
       (replace_placeholders (usage_blocks e) doctree)"

section \<open>The block processor\<close>

text \<open>
  The calls the block processor makes, in order. The log is not data of the program: it
  is kept beside the state so that the order of the calls can be stated.
  \<open>Dispatched use i recs processed\<close> is a call of \<open>records_to_nodes\<close> for the block
  at index \<open>i\<close>, with the records it received and \<open>processed_records\<close> as it was then.
\<close>

datatype event =
    Parsed nat
  | Executed usage_class nat
  | Dispatched usage_class nat new_records "string list"
  | Updated

type_synonym 't pstate = "'t env \<times> world \<times> string list \<times> event list"

text \<open>The body of the inner loop, for the block at index \<open>i\<close>.\<close>

definition process_block ::
  "'t python \<Rightarrow> usage_class \<Rightarrow> nat \<Rightarrow> 't pstate \<Rightarrow> py_error + 't pstate" where
  "process_block py use i st =
     (case st of
        (e, w, processed_records, log) \<Rightarrow>
          (let blk = usage_blocks e ! i
           in case ast_parse py (code blk) of
                Inl err \<Rightarrow> Inl err
              | Inr t \<Rightarrow>
                  (let blk1 = blk\<lparr>tree := Some t\<rparr>
                   in case exec py t use w of
                        Inl err \<Rightarrow> Inl err
                      | Inr w1 \<Rightarrow>
                          (case get_new_records (records (MetaUsage w1 use)) processed_records of
                             Inl err \<Rightarrow> Inl err
                           | Inr new_recs \<Rightarrow>
                               (case records_to_nodes py use new_recs blk1 e w1 of
                                  Inl err \<Rightarrow> Inl err
                                | Inr (blk2, w2) \<Rightarrow>
                                    (case update_processed_records new_recs processed_records of
                                       Inl err \<Rightarrow> Inl err
                                     | Inr processed' \<Rightarrow>
                                         Inr (e\<lparr>usage_blocks := (usage_blocks e)[i := blk2]\<rparr>,
                                              w2, processed',
                                              log @ [Parsed i, Executed use i,
                                                     Dispatched use i new_recs
                                                       processed_records])))))))"

text \<open>The inner loop, over the indices of \<open>env.usage_blocks\<close>.\<close>

fun blocks_loop ::
  "'t python \<Rightarrow> usage_class \<Rightarrow> nat list \<Rightarrow> 't pstate \<Rightarrow> py_error + 't pstate" where
  "blocks_loop py use [] st = Inr st"
| "blocks_loop py use (i # js) st =
     (case process_block py use i st of
        Inl err \<Rightarrow> Inl err
      | Inr st' \<Rightarrow> blocks_loop py use js st')"

text \<open>One turn of the outer loop: \<open>processed_records\<close> starts empty.\<close>

definition strategy_pass ::
  "'t python \<Rightarrow> usage_class \<Rightarrow> 't env \<times> world \<times> event list
     \<Rightarrow> py_error + 't env \<times> world \<times> event list" where
  "strategy_pass py use st =
     (case st of
        (e, w, log) \<Rightarrow>
          (case blocks_loop py use [0..<length (usage_blocks e)] (e, w, [], log) of
             Inl err \<Rightarrow> Inl err
           | Inr (e', w', processed_records, log') \<Rightarrow> Inr (e', w', log')))"

fun strategies_loop ::
  "'t python \<Rightarrow> usage_class list \<Rightarrow> 't env \<times> world \<times> event list
     \<Rightarrow> py_error + 't env \<times> world \<times> event list" where
  "strategies_loop py [] st = Inr st"
| "strategies_loop py (use # rest) st =
     (case strategy_pass py use st of
        Inl err \<Rightarrow> Inl err
      | Inr st' \<Rightarrow> strategies_loop py rest st')"

text \<open>
  \<open>process_usage_blocks\<close>: change the working directory, run every strategy over every
  block, then update the nodes of the document.
\<close>

definition process_usage_blocks ::
  "'t python \<Rightarrow> doc_item list \<Rightarrow> 't env \<Rightarrow> world
     \<Rightarrow> py_error + (doc_item list \<times> 't env \<times> world \<times> event list)" where
  "process_usage_blocks py doctree e w =
     (case strategies_loop py MetaUsage_members (e, w\<lparr>cwd := srcdir e\<rparr>, []) of
        Inl err \<Rightarrow> Inl err
      | Inr (e', w', log) \<Rightarrow>
          (case update_nodes doctree e' w' of
             Inl err \<Rightarrow> Inl err
           | Inr doctree' \<Rightarrow> Inr (doctree', e', w', log @ [Updated])))"

section \<open>The block processor as the spec describes it\<close>

text \<open>
  The spec (section 4.1) describes the block processor as one sequence of steps: for
  each strategy of the ordered set, and for each block in declaration order, parse the
  block's source, execute it with the strategy as the usage recorder, determine the
  records that are new relative to the processed set of the strategy, hand them to the
  dispatcher, and after the dispatch merge their references into the processed set;
  the processed set is per strategy; the node updater runs once at the end. The
  definitions below follow these words, not the loops of the source: the steps are the
  pairs of a strategy and a block index, strategies outside, and the processed set is
  emptied at the first block of a strategy. They keep no log.
\<close>

definition bind_result :: "'x + 'a \<Rightarrow> ('a \<Rightarrow> 'x + 'b) \<Rightarrow> 'x + 'b" where
  "bind_result m f = (case m of Inl err \<Rightarrow> Inl err | Inr v \<Rightarrow> f v)"

definition spec_block_step ::
  "'t python \<Rightarrow> usage_class \<Rightarrow> nat \<Rightarrow> 't env \<times> world \<times> string list
     \<Rightarrow> py_error + 't env \<times> world \<times> string list" where
  "spec_block_step py use i st =
     (case st of
        (e, w, processed) \<Rightarrow>
          bind_result (ast_parse py (code (usage_blocks e ! i))) (\<lambda>t.
          bind_result (exec py t use w) (\<lambda>w1.
          bind_result (get_new_records (records (MetaUsage w1 use)) processed) (\<lambda>new_recs.
          bind_result (records_to_nodes py use new_recs
                         ((usage_blocks e ! i)\<lparr>tree := Some t\<rparr>) e w1) (\<lambda>(blk, w2).
          bind_result (update_processed_records new_recs processed) (\<lambda>processed'.
            Inr (e\<lparr>usage_blocks := (usage_blocks e)[i := blk]\<rparr>, w2, processed')))))))"

fun spec_steps ::
  "'t python \<Rightarrow> (usage_class \<times> nat) list \<Rightarrow> 't env \<times> world \<times> string list
     \<Rightarrow> py_error + 't env \<times> world \<times> string list" where
  "spec_steps py [] st = Inr st"
| "spec_steps py ((use, i) # rest) (e, w, processed) =
     bind_result (spec_block_step py use i (e, w, if i = 0 then [] else processed))
       (spec_steps py rest)"

definition spec_process_usage_blocks ::
  "'t python \<Rightarrow> doc_item list \<Rightarrow> 't env \<Rightarrow> world
     \<Rightarrow> py_error + (doc_item list \<times> 't env \<times> world)" where
  "spec_process_usage_blocks py doctree e w =
     bind_result
       (spec_steps py
          (concat (map (\<lambda>use. map (Pair use) [0..<length (usage_blocks e)])
                     MetaUsage_members))
          (e, w\<lparr>cwd := srcdir e\<rparr>, []))
       (\<lambda>(e', w', processed).
          bind_result (update_nodes doctree e' w') (\<lambda>doctree'. Inr (doctree', e', w')))"

text \<open>The result of the block processor of the source, without its log.\<close>

definition without_log ::
  "py_error + (doc_item list \<times> 't env \<times> world \<times> event list)
     \<Rightarrow> py_error + (doc_item list \<times> 't env \<times> world)" where
  "without_log r =
     (case r of Inl err \<Rightarrow> Inl err | Inr (d, e, w, log) \<Rightarrow> Inr (d, e, w))"

section \<open>Vocabulary for the properties of the block processor\<close>

text \<open>
  The log of one pass of a strategy over the blocks, starting at block \<open>i\<close> with the
  processed list \<open>p\<close>, when the dispatcher receives the tuples \<open>rss\<close> one after the
  other: each block is parsed, executed and dispatched, and the references of its
  records are appended to the processed list before the next block.
\<close>

fun pass_events ::
  "usage_class \<Rightarrow> nat \<Rightarrow> string list \<Rightarrow> ScopeRecord list list \<Rightarrow> event list" where
  "pass_events use i p [] = []"
| "pass_events use i p (rs # rss) =
     [Parsed i, Executed use i, Dispatched use i (Tuple rs) p]
     @ pass_events use (Suc i) (p @ map ref rs) rss"

text \<open>
  The log of the passes of several strategies, each over all blocks from the first
  one, each starting with the empty processed list.
\<close>

fun passes_events :: "usage_class list \<Rightarrow> ScopeRecord list list list \<Rightarrow> event list" where
  "passes_events (use # uses) (rss # rsss) = pass_events use 0 [] rss @ passes_events uses rsss"
| "passes_events _ _ = []"

text \<open>
  Every tuple of the sequence holds only records whose references are neither in \<open>p\<close>
  nor among the references of the tuples before it.
\<close>

fun fresh_refs :: "string list \<Rightarrow> ScopeRecord list list \<Rightarrow> bool" where
  "fresh_refs p [] = True"
| "fresh_refs p (rs # rss) = (set (map ref rs) \<inter> set p = {} \<and> fresh_refs (p @ map ref rs) rss)"

text \<open>
  The invariant of the usage-recording facility that the module relies on: a record is
  stored under its own reference.
\<close>

definition keys_are_refs :: "records_dict \<Rightarrow> bool" where
  "keys_are_refs d = list_all (\<lambda>(k, r). ref r = k) d"

definition scopes_ok :: "world \<Rightarrow> bool" where
  "scopes_ok w =
     list_all (\<lambda>c. keys_are_refs (records (MetaUsage w c)))
       [DiagnosticUsage, CLIUsage, ArtifactAPIUsage, ExecutionUsage, OtherUsage]"

text \<open>An event of the log that is not a call of the dispatcher.\<close>

fun not_dispatch :: "event \<Rightarrow> bool" where
  "not_dispatch (Dispatched _ _ _ _) = False"
| "not_dispatch _ = True"

text \<open>The number of factory nodes in a list of nodes, and the usage nodes of a document.\<close>

definition factory_count :: "node list \<Rightarrow> nat" where
  "factory_count ns = length (filter (\<lambda>n. is_FactoryNode (Usage n)) ns)"

fun usage_nodes :: "doc_item list \<Rightarrow> node list" where
  "usage_nodes [] = []"
| "usage_nodes (Other # doc) = usage_nodes doc"
| "usage_nodes (Usage n # doc) = n # usage_nodes doc"

section \<open>Example inputs\<close>

text \<open>
  A small build used to evaluate the definitions: a metadata record and an artifact
  record, a usage object that renders two pieces, a world whose execution usage object
  already holds the two records, two placeholders from the page \<open>d/i.rst\<close>, and a run
  time whose \<open>exec\<close> leaves the two records in the usage object bound to \<open>use\<close>.
\<close>

definition ex_metadata :: ScopeRecord where
  "ex_metadata = \<lparr>ref = ''m'', source = ''init_metadata'', result = Metadata ''df''\<rparr>"

definition ex_artifact :: ScopeRecord where
  "ex_artifact = \<lparr>ref = ''a'', source = ''init_data'', result = Artifact ''T''\<rparr>"

definition ex_action :: ScopeRecord where
  "ex_action = \<lparr>ref = ''v'', source = ''action'', result = Artifact ''V''\<rparr>"

definition ex_dict :: records_dict where
  "ex_dict = [(''m'', ex_metadata), (''a'', ex_artifact)]"

definition ex_usage :: "records_dict \<Rightarrow> usage" where
  "ex_usage d = \<lparr>records = d, rendering = Seq [''q'', ''x''], render_calls = 0\<rparr>"

definition ex_world :: world where
  "ex_world =
     \<lparr>MetaUsage = (\<lambda>c. if c = ExecutionUsage then ex_usage ex_dict else ex_usage []),
      cwd = ''/'', dirs = [], files = []\<rparr>"

definition ex_placeholder :: node where
  "ex_placeholder =
     \<lparr>factory = False, name = Some ''b'', node_source = Some ''d/i.rst'',
      kind = Placeholder\<rparr>"

definition ex_factory_placeholder :: node where
  "ex_factory_placeholder =
     \<lparr>factory = True, name = Some ''m'', node_source = Some ''d/i.rst'',
      kind = Placeholder\<rparr>"

definition ex_block :: "node list \<Rightarrow> unit block" where
  "ex_block ns = \<lparr>code = ''c'', tree = None, nodes = ns\<rparr>"

definition ex_env :: "unit block list \<Rightarrow> unit env" where
  "ex_env bs = \<lparr>srcdir = ''s'', usage_blocks = bs, base_url = ''u/'', outdir = ''o''\<rparr>"

definition ex_python :: "unit python" where
  "ex_python =
     \<lparr>ast_parse = (\<lambda>s. Inr ()),
      exec = (\<lambda>t use w.
        Inr (w\<lparr>MetaUsage := (MetaUsage w)(use := (MetaUsage w use)\<lparr>records := ex_dict\<rparr>)\<rparr>)),
      visit = (\<lambda>t. Inr ())\<rparr>"

definition ex_doctree :: "doc_item list" where
  "ex_doctree = [Usage ex_placeholder, Other, Usage ex_factory_placeholder]"

definition ex_blocks :: "unit block list" where
  "ex_blocks = [ex_block [ex_placeholder], ex_block [ex_factory_placeholder]]"

text \<open>
  A run time like \<open>ex_python\<close> whose \<open>exec\<close> also leaves a mark in the file system:
  every execution of a block adds the directory \<open>x\<close>.
\<close>

definition ex_python_marking :: "unit python" where
  "ex_python_marking =
     \<lparr>ast_parse = (\<lambda>s. Inr ()),
      exec = (\<lambda>t use w.
        Inr (w\<lparr>MetaUsage := (MetaUsage w)(use := (MetaUsage w use)\<lparr>records := ex_dict\<rparr>),
               dirs := dirs w @ [''x'']\<rparr>)),
      visit = (\<lambda>t. Inr ())\<rparr>"

section \<open>Properties\<close>

lemma getitem_fst:
  assumes "k \<in> fst ` set d"
  shows "\<exists>r. getitem d k = Inr r \<and> (k, r) \<in> set d"
proof -
  from assms obtain r where "map_of d k = Some r"
    by (metis domIff dom_map_of_conv_image_fst not_Some_eq)
  then show ?thesis
    by (auto simp: getitem_def dest: map_of_SomeD)
qed

lemma getitems_fst:
  assumes "set ks \<subseteq> fst ` set d"
  shows "\<exists>rs. getitems d ks = Inr rs \<and> length rs = length ks \<and> set (zip ks rs) \<subseteq> set d"
  using assms
proof (induction ks)
  case Nil
  then show ?case by simp
next
  case (Cons k ks)
  then obtain rs where rs: "getitems d ks = Inr rs" "length rs = length ks"
    "set (zip ks rs) \<subseteq> set d"
    by auto
  from Cons.prems obtain r where r: "getitem d k = Inr r" "(k, r) \<in> set d"
    using getitem_fst [of k d] by auto
  show ?case
    using rs r by simp
qed

lemma new_record_keys_subset: "set (new_record_keys recs p) \<subseteq> fst ` set recs"
  by (auto simp: new_record_keys_def)

lemma getitem_map_of:
  assumes "k \<in> fst ` set d"
  shows "\<exists>r. map_of d k = Some r \<and> getitem d k = Inr r"
proof -
  from assms obtain r where "map_of d k = Some r"
    by (metis domIff dom_map_of_conv_image_fst not_Some_eq)
  then show ?thesis
    by (simp add: getitem_def)
qed

subsection \<open>C9: one new key gives a bare record\<close>

text \<open>
  C9. With no new key \<open>get_new_records\<close> returns the empty tuple, with two or more a
  tuple with one record per key, and with exactly one new key the record itself, not a
  tuple of one record. The consumers that iterate the result (\<open>update_processed_records\<close>
  and the handlers \<open>cli\<close> and \<open>artifact_api\<close>) then receive a record object where
  they expect a collection; iterating it raises \<open>TypeError\<close>.
\<close>

theorem get_new_records_shape:
  "(new_record_keys recs p = [] \<longrightarrow> get_new_records recs p = Inr (Tuple []))
   \<and> (\<forall>k. new_record_keys recs p = [k] \<longrightarrow>
         (\<exists>r. map_of recs k = Some r \<and> get_new_records recs p = Inr (Bare r)))
   \<and> (2 \<le> length (new_record_keys recs p) \<longrightarrow>
         (\<exists>rs. get_new_records recs p = Inr (Tuple rs)
            \<and> length rs = length (new_record_keys recs p)))
   \<and> py_iter (Bare r0) = Inl TypeError
   \<and> update_processed_records (Bare r0) p = Inl TypeError
   \<and> cli use (Bare r0) blk e w = Inl TypeError
   \<and> artifact_api use (Bare r0) blk e w = Inl TypeError"
proof (intro conjI allI impI)
  assume "new_record_keys recs p = []"
  then show "get_new_records recs p = Inr (Tuple [])"
    by (simp add: get_new_records_def)
next
  fix k
  assume one: "new_record_keys recs p = [k]"
  then have "k \<in> fst ` set recs"
    using new_record_keys_subset [of recs p] by auto
  then obtain r where "map_of recs k = Some r" "getitem recs k = Inr r"
    using getitem_map_of by blast
  then show "\<exists>r. map_of recs k = Some r \<and> get_new_records recs p = Inr (Bare r)"
    using one by (simp add: get_new_records_def)
next
  assume two: "2 \<le> length (new_record_keys recs p)"
  then obtain a b ks where ks: "new_record_keys recs p = a # b # ks"
    by (cases "new_record_keys recs p"; cases "tl (new_record_keys recs p)") auto
  obtain rs where "getitems recs (new_record_keys recs p) = Inr rs"
    "length rs = length (new_record_keys recs p)"
    using getitems_fst [OF new_record_keys_subset, of recs p] by blast
  then show "\<exists>rs. get_new_records recs p = Inr (Tuple rs)
            \<and> length rs = length (new_record_keys recs p)"
    using ks by (simp add: get_new_records_def)
qed (simp_all add: update_processed_records_def cli_def artifact_api_def)

text \<open>
  Witness for C9: a dictionary with one new key gives the bare record; with two new keys
  a tuple; with none the empty tuple.
\<close>

theorem get_new_records_shape_witness:
  "new_record_keys [(''a'', \<lparr>ref = ''a'', source = ''init_data'', result = Opaque\<rparr>)] [] = [''a'']
   \<and> get_new_records [(''a'', \<lparr>ref = ''a'', source = ''init_data'', result = Opaque\<rparr>)] []
       = Inr (Bare \<lparr>ref = ''a'', source = ''init_data'', result = Opaque\<rparr>)
   \<and> 2 \<le> length (new_record_keys
         [(''a'', \<lparr>ref = ''a'', source = ''init_data'', result = Opaque\<rparr>),
          (''b'', \<lparr>ref = ''b'', source = ''action'', result = Opaque\<rparr>),
          (''c'', \<lparr>ref = ''c'', source = ''action'', result = Opaque\<rparr>)] [''a''])
   \<and> get_new_records
         [(''a'', \<lparr>ref = ''a'', source = ''init_data'', result = Opaque\<rparr>),
          (''b'', \<lparr>ref = ''b'', source = ''action'', result = Opaque\<rparr>),
          (''c'', \<lparr>ref = ''c'', source = ''action'', result = Opaque\<rparr>)] [''a'']
       = Inr (Tuple [\<lparr>ref = ''b'', source = ''action'', result = Opaque\<rparr>,
                     \<lparr>ref = ''c'', source = ''action'', result = Opaque\<rparr>])
   \<and> new_record_keys [(''a'', \<lparr>ref = ''a'', source = ''init_data'', result = Opaque\<rparr>)] [''a''] = []
   \<and> get_new_records [(''a'', \<lparr>ref = ''a'', source = ''init_data'', result = Opaque\<rparr>)] [''a'']
       = Inr (Tuple [])"
  using get_new_records_shape
    [of "[(''a'', \<lparr>ref = ''a'', source = ''init_data'', result = Opaque\<rparr>)]" "[]"]
  by (simp add: new_record_keys_def get_new_records_def getitem_def)

subsection \<open>Helper lemmas for the execution handler\<close>

lemma save_guard_True: "save_guard r"
  by (simp add: save_guard_def py_or_def)

lemma save_records_files:
  "save_records d rs w = Inr w' \<Longrightarrow>
     files w' = files w @ map (\<lambda>r. (os_path_join d (ref r @ ''.qza''), result r)) rs
     \<and> dirs w' = dirs w \<and> MetaUsage w' = MetaUsage w \<and> cwd w' = cwd w"
proof (induction rs arbitrary: w)
  case Nil
  then show ?case by simp
next
  case (Cons r rs)
  from Cons.prems obtain w1 where
    w1: "save (result r) (os_path_join d (ref r @ ''.qza'')) w = Inr w1"
    and rest: "save_records d rs w1 = Inr w'"
    by (auto simp: save_guard_True Let_def split: sum.splits)
  from w1 have "w1 = w\<lparr>files := files w @ [(os_path_join d (ref r @ ''.qza''), result r)]\<rparr>"
    by (auto simp: save_def split: result_value.splits)
  with Cons.IH [OF rest] show ?case by simp
qed

lemma join_with_snoc: "\<exists>pre. join_with sep (ys @ [r]) = pre @ r"
proof (induction ys)
  case Nil
  then show ?case by simp
next
  case (Cons y ys)
  then obtain pre where pre: "join_with sep (ys @ [r]) = pre @ r" by blast
  show ?case
  proof (cases "ys @ [r]")
    case Nil
    then show ?thesis by simp
  next
    case (Cons z zs)
    then have "join_with sep ((y # ys) @ [r]) = y @ sep @ join_with sep (ys @ [r])"
      by simp
    with pre show ?thesis by (metis append.assoc)
  qed
qed

lemma path_str_snoc: "r \<noteq> [] \<Longrightarrow> \<exists>pre. path_str (xs @ [r]) = pre @ r"
proof (cases xs)
  case Nil
  assume "r \<noteq> []"
  show ?thesis
  proof (cases "is_absolute [r]")
    case True
    then show ?thesis using Nil by (simp add: path_str_def)
  next
    case False
    then show ?thesis using Nil by (simp add: path_str_def)
  qed
next
  case (Cons x ys)
  obtain pre where pre: "join_with ''/'' (ys @ [r]) = pre @ r"
    using join_with_snoc by blast
  obtain pre2 where pre2: "join_with ''/'' (x # ys @ [r]) = pre2 @ r"
    using join_with_snoc [of "''/''" "x # ys" r] by auto
  show ?thesis
  proof (cases "is_absolute (xs @ [r])")
    case True
    then have "path_str (xs @ [r]) = x @ pre @ r"
      using Cons pre by (simp add: path_str_def)
    then show ?thesis by (metis append.assoc)
  next
    case False
    then have "path_str (xs @ [r]) = pre2 @ r"
      using Cons pre2 by (simp add: path_str_def)
    then show ?thesis by blast
  qed
qed

lemma results_dir_end: "\<exists>pre. results_dir e d = pre @ ''results''"
proof -
  have "Path ''results'' = [''results'']"
    by (simp add: Path_def path_root_def)
  moreover have "\<not> is_absolute [''results'']"
    by (simp add: is_absolute_def)
  ultimately have "results_dir e d = path_str (truediv (Path (outdir e)) d @ [''results''])"
    by (simp add: results_dir_def truediv_def)
  then show ?thesis
    using path_str_snoc [of "''results''" "truediv (Path (outdir e)) d"] by auto
qed

lemma os_path_join_results_dir:
  assumes "take 1 nm \<noteq> ''/''"
  shows "os_path_join (results_dir e d) (nm @ ''.qza'') = results_dir e d @ ''/'' @ nm @ ''.qza''"
proof -
  obtain pre where pre: "results_dir e d = pre @ ''results''"
    using results_dir_end by blast
  have "take 1 (nm @ ''.qza'') \<noteq> ''/''"
    using assms by (cases nm) auto
  moreover have "results_dir e d \<noteq> []" "last (results_dir e d) \<noteq> CHR ''/''"
    using pre by auto
  ultimately show ?thesis
    by (simp add: os_path_join_def)
qed

subsection \<open>C10: the execution handler needs a first node\<close>

text \<open>
  C10. \<open>execution\<close> reads the first element of the block's node list before it looks
  at the records: on an empty node list it raises \<open>IndexError\<close>, whatever the
  records are, also when there is none.
\<close>

theorem execution_empty_nodes:
  "nodes blk = [] \<Longrightarrow>
     execution use recs blk e w = Inl IndexError
     \<and> records_to_nodes py ExecutionUsage recs blk e w = Inl IndexError"
  by (simp add: execution_def records_to_nodes_def)

text \<open>
  Witness for C10: an empty block and no record. The command-line handler, which reads
  no node, returns the block unchanged on the same input.
\<close>

theorem execution_empty_nodes_witness:
  "nodes (ex_block []) = []
   \<and> execution ExecutionUsage (Tuple []) (ex_block []) (ex_env []) ex_world = Inl IndexError
   \<and> cli CLIUsage (Tuple []) (ex_block []) (ex_env []) ex_world
       = Inr (ex_block [], ex_world)"
  using execution_empty_nodes
    [of "ex_block []" ExecutionUsage "Tuple []" "ex_env []" ex_world]
  by (simp add: ex_block_def cli_def)

subsection \<open>C1: the save guard is always true\<close>

text \<open>
  C1. The guard \<open>record.source == "init_metadata" or "init_data"\<close> is true for every
  record, because its second operand is a non-empty string. So whenever the execution
  handler returns, it has saved the result of every record it received, in order, under
  \<open>os.path.join(out_dir, ref + ".qza")\<close>, whatever the source of the record; for a
  reference that does not start with a slash this is the file \<open>ref.qza\<close> inside the
  output directory.
\<close>

theorem execution_saves_every_record:
  "save_guard r \<and>
   (execution use (Tuple rs) blk e w = Inr (blk', w') \<longrightarrow>
     (\<exists>root doc_name.
        get_docname (hd (nodes blk)) = Inr (root, doc_name)
        \<and> files w' = files w
            @ map (\<lambda>r. (os_path_join (results_dir e doc_name) (ref r @ ''.qza''), result r)) rs))
   \<and> (take 1 (ref r) \<noteq> ''/'' \<longrightarrow>
        os_path_join (results_dir e d) (ref r @ ''.qza'')
          = results_dir e d @ ''/'' @ ref r @ ''.qza'')
   \<and> records_to_nodes py ExecutionUsage (Tuple rs) blk e w
       = execution ExecutionUsage (Tuple rs) blk e w"
proof (intro conjI impI)
  show "save_guard r" by (rule save_guard_True)
next
  assume ok: "execution use (Tuple rs) blk e w = Inr (blk', w')"
  then obtain n ns where ns: "nodes blk = n # ns"
    by (cases "nodes blk") (auto simp: execution_def)
  from ok ns obtain root doc_name where dn: "get_docname n = Inr (root, doc_name)"
    by (cases "get_docname n") (auto simp: execution_def)
  define w1 where "w1 = (if \<not> path_exists w (results_dir e doc_name)
                         then mkdir (results_dir e doc_name) w else w)"
  from ok ns dn have sv: "save_records (results_dir e doc_name) rs w1 = Inr w'"
    by (auto simp: execution_def Let_def w1_def split: sum.splits if_splits)
  have "files w1 = files w" by (simp add: w1_def mkdir_def)
  with save_records_files [OF sv] ns dn show
    "\<exists>root doc_name.
        get_docname (hd (nodes blk)) = Inr (root, doc_name)
        \<and> files w' = files w
            @ map (\<lambda>r. (os_path_join (results_dir e doc_name) (ref r @ ''.qza''), result r)) rs"
    by simp
next
  assume "take 1 (ref r) \<noteq> ''/''"
  then show "os_path_join (results_dir e d) (ref r @ ''.qza'')
          = results_dir e d @ ''/'' @ ref r @ ''.qza''"
    by (rule os_path_join_results_dir)
next
  show "records_to_nodes py ExecutionUsage (Tuple rs) blk e w
       = execution ExecutionUsage (Tuple rs) blk e w"
    by (simp add: records_to_nodes_def)
qed

text \<open>
  Witness for C1: a metadata record and a record whose source is \<open>action\<close>; both are
  saved under the results directory of the page.
\<close>

theorem execution_saves_every_record_witness:
  "\<not> isl (execution ExecutionUsage (Tuple [ex_metadata, ex_action])
            (ex_block [ex_placeholder]) (ex_env []) ex_world)
   \<and> files (snd (projr (execution ExecutionUsage (Tuple [ex_metadata, ex_action])
            (ex_block [ex_placeholder]) (ex_env []) ex_world)))
       = [(''o/i/results/m.qza'', Metadata ''df''), (''o/i/results/v.qza'', Artifact ''V'')]
   \<and> source ex_action = ''action'' \<and> save_guard ex_action
   \<and> take 1 (ref ex_action) \<noteq> ''/''"
proof -
  define X where "X = execution ExecutionUsage (Tuple [ex_metadata, ex_action])
            (ex_block [ex_placeholder]) (ex_env []) ex_world"
  have a: "\<not> isl X" unfolding X_def by code_simp
  have b: "files (snd (projr X))
       = [(''o/i/results/m.qza'', Metadata ''df''), (''o/i/results/v.qza'', Artifact ''V'')]"
    unfolding X_def by code_simp
  have c: "source ex_action = ''action''" "take 1 (ref ex_action) \<noteq> ''/''"
    by (simp_all add: ex_action_def)
  from a have d: "execution ExecutionUsage (Tuple [ex_metadata, ex_action])
            (ex_block [ex_placeholder]) (ex_env []) ex_world
       = Inr (fst (projr X), snd (projr X))"
    unfolding X_def by (cases "execution ExecutionUsage (Tuple [ex_metadata, ex_action])
            (ex_block [ex_placeholder]) (ex_env []) ex_world") auto
  show ?thesis
    using execution_saves_every_record
      [of ex_action ExecutionUsage "[ex_metadata, ex_action]" "ex_block [ex_placeholder]"
          "ex_env []" ex_world "fst (projr X)" "snd (projr X)" "[''i'']"]
      a b c d
    unfolding X_def by simp
qed

subsection \<open>C3: the command-line handler\<close>

lemma cli_loop_no_action:
  "\<forall>r \<in> set rs. source r \<noteq> ''action'' \<Longrightarrow> cli_loop use rs blk w = (blk, w)"
  by (induction rs) auto

lemma cli_loop_action:
  "\<exists>r \<in> set rs. source r = ''action'' \<Longrightarrow>
   cli_loop use rs blk w =
     (blk\<lparr>nodes := [UsageExampleNode [''Command Line'']
                        [Str (py_join (rendering (MetaUsage w use)))]]\<rparr>,
      snd (render use w))"
proof (induction rs)
  case Nil
  then show ?case by simp
next
  case (Cons r rs)
  show ?case
  proof (cases "source r = ''action''")
    case True
    then show ?thesis by (simp add: render_def Let_def)
  next
    case False
    with Cons show ?thesis by simp
  qed
qed

text \<open>
  C3. On a tuple of records the command-line handler always returns. If some record has
  the source \<open>action\<close>, \<open>render\<close> is called once (its call count grows by one) and
  the block's node list becomes the single example node with the one title
  \<open>Command Line\<close> and the one example, the joined output of \<open>render\<close>; the records
  after the first \<open>action\<close> record have no effect. If no record has the source
  \<open>action\<close>, the block and the usage objects are unchanged.
\<close>

theorem cli_first_action:
  "cli use (Tuple rs) blk e w =
     Inr (if \<exists>r \<in> set rs. source r = ''action''
          then (blk\<lparr>nodes := [UsageExampleNode [''Command Line'']
                                [Str (py_join (rendering (MetaUsage w use)))]]\<rparr>,
                snd (render use w))
          else (blk, w))
   \<and> render_calls (MetaUsage (snd (render use w)) use) = Suc (render_calls (MetaUsage w use))
   \<and> (source a = ''action'' \<and> (\<forall>r \<in> set rs1. source r \<noteq> ''action'') \<longrightarrow>
        cli use (Tuple (rs1 @ a # rs2)) blk e w = cli use (Tuple (rs1 @ [a])) blk e w)
   \<and> records_to_nodes py CLIUsage (Tuple rs) blk e w = cli CLIUsage (Tuple rs) blk e w"
proof (intro conjI impI)
  show "cli use (Tuple rs) blk e w =
     Inr (if \<exists>r \<in> set rs. source r = ''action''
          then (blk\<lparr>nodes := [UsageExampleNode [''Command Line'']
                                [Str (py_join (rendering (MetaUsage w use)))]]\<rparr>,
                snd (render use w))
          else (blk, w))"
    using cli_loop_action [of rs use blk w] cli_loop_no_action [of rs use blk w]
    by (auto simp: cli_def)
next
  show "render_calls (MetaUsage (snd (render use w)) use) = Suc (render_calls (MetaUsage w use))"
    by (simp add: render_def Let_def)
next
  assume "source a = ''action'' \<and> (\<forall>r \<in> set rs1. source r \<noteq> ''action'')"
  then have "\<exists>r \<in> set (rs1 @ a # rs2). source r = ''action''"
    "\<exists>r \<in> set (rs1 @ [a]). source r = ''action''"
    by auto
  then show "cli use (Tuple (rs1 @ a # rs2)) blk e w = cli use (Tuple (rs1 @ [a])) blk e w"
    using cli_loop_action [of "rs1 @ a # rs2" use blk w] cli_loop_action [of "rs1 @ [a]" use blk w]
    by (simp add: cli_def)
next
  show "records_to_nodes py CLIUsage (Tuple rs) blk e w = cli CLIUsage (Tuple rs) blk e w"
    by (simp add: records_to_nodes_def)
qed

text \<open>
  Witness for C3: an artifact record followed by two action records gives one example
  node and one call of \<open>render\<close>; two records without an action change nothing.
\<close>

theorem cli_first_action_witness:
  "source ex_action = ''action'' \<and> source ex_artifact \<noteq> ''action''
   \<and> cli CLIUsage (Tuple [ex_artifact, ex_action, ex_action]) (ex_block [ex_placeholder])
        (ex_env []) ex_world
      = Inr ((ex_block [ex_placeholder])
               \<lparr>nodes := [UsageExampleNode [''Command Line''] [Str ''qx'']]\<rparr>,
             snd (render CLIUsage ex_world))
   \<and> render_calls (MetaUsage ex_world CLIUsage) = 0
   \<and> render_calls (MetaUsage (snd (render CLIUsage ex_world)) CLIUsage) = 1
   \<and> cli CLIUsage (Tuple [ex_artifact, ex_metadata]) (ex_block [ex_placeholder])
        (ex_env []) ex_world
      = Inr (ex_block [ex_placeholder], ex_world)"
proof -
  have a: "source ex_action = ''action''" "source ex_artifact \<noteq> ''action''"
    "source ex_metadata \<noteq> ''action''"
    by (simp_all add: ex_action_def ex_artifact_def ex_metadata_def)
  have b: "py_join (rendering (MetaUsage ex_world CLIUsage)) = ''qx''"
    "render_calls (MetaUsage ex_world CLIUsage) = 0"
    by (simp_all add: ex_world_def ex_usage_def)
  show ?thesis
    using cli_first_action
        [of CLIUsage "[ex_artifact, ex_action, ex_action]" "ex_block [ex_placeholder]"
            "ex_env []" ex_world ex_action "[ex_artifact]" "[ex_action]"]
      cli_first_action
        [of CLIUsage "[ex_artifact, ex_metadata]" "ex_block [ex_placeholder]"
            "ex_env []" ex_world ex_action "[]" "[]"]
      a b
    by simp
qed

subsection \<open>C5: factory blocks under the execution handler\<close>

lemma factories_to_nodes_nodes:
  assumes "factories_to_nodes blk e = Inr blk'"
  shows "\<exists>root doc_name.
           nodes blk \<noteq> [] \<and> get_docname (last (nodes blk)) = Inr (root, doc_name)
           \<and> blk' = blk\<lparr>nodes := butlast (nodes blk)
               @ [FactoryNode (''results/'' @ fstr (name (last (nodes blk))) @ ''.qza'')
                    (rstrip_slash (base_url e) @ ''/'' @ path_str doc_name @ ''/''
                       @ ''results/'' @ fstr (name (last (nodes blk))) @ ''.qza'')
                    (fstr (name (last (nodes blk))) @ ''.qza'')
                    (name (last (nodes blk)))]\<rparr>"
proof (cases "nodes blk" rule: rev_cases)
  case Nil
  with assms show ?thesis by (simp add: factories_to_nodes_def)
next
  case (snoc ns n)
  with assms obtain root doc_name where dn: "get_docname n = Inr (root, doc_name)"
    by (cases "get_docname n") (auto simp: factories_to_nodes_def)
  with assms snoc show ?thesis
    by (auto simp: factories_to_nodes_def Let_def)
qed

lemma execution_nodes:
  assumes "execution use recs blk e w = Inr (blk', w')"
  shows "nodes blk \<noteq> []
         \<and> (if factory (hd (nodes blk)) then factories_to_nodes blk e = Inr blk'
             else blk' = blk)"
proof -
  from assms obtain n ns where ns: "nodes blk = n # ns"
    by (cases "nodes blk") (auto simp: execution_def)
  from assms ns show ?thesis
    by (auto simp: execution_def Let_def split: sum.splits if_splits)
qed





subsection \<open>C8: dispatch on an empty record collection\<close>

lemma diagnostic_frame:
  "diagnostic py use recs blk e w = Inr (blk', w') \<Longrightarrow> blk' = blk \<and> w' = w"
  by (auto simp: diagnostic_def split: option.splits sum.splits)


lemma process_block_cases:
  assumes "process_block py use i (e, w, p, log) = Inr (e', w', p', log')"
  shows "\<exists>t w1 rs blk2.
           ast_parse py (code (usage_blocks e ! i)) = Inr t
           \<and> exec py t use w = Inr w1
           \<and> get_new_records (records (MetaUsage w1 use)) p = Inr (Tuple rs)
           \<and> records_to_nodes py use (Tuple rs) ((usage_blocks e ! i)\<lparr>tree := Some t\<rparr>) e w1
               = Inr (blk2, w')
           \<and> e' = e\<lparr>usage_blocks := (usage_blocks e)[i := blk2]\<rparr>
           \<and> p' = p @ map ref rs
           \<and> log' = log @ [Parsed i, Executed use i, Dispatched use i (Tuple rs) p]"
proof -
  from assms obtain t where t: "ast_parse py (code (usage_blocks e ! i)) = Inr t"
    by (cases "ast_parse py (code (usage_blocks e ! i))")
      (auto simp: process_block_def Let_def)
  from assms t obtain w1 where w1: "exec py t use w = Inr w1"
    by (cases "exec py t use w") (auto simp: process_block_def Let_def)
  from assms t w1 obtain nr where nr: "get_new_records (records (MetaUsage w1 use)) p = Inr nr"
    by (cases "get_new_records (records (MetaUsage w1 use)) p")
      (auto simp: process_block_def Let_def)
  from assms t w1 nr obtain blk2 w2 where
    d: "records_to_nodes py use nr ((usage_blocks e ! i)\<lparr>tree := Some t\<rparr>) e w1 = Inr (blk2, w2)"
    by (cases "records_to_nodes py use nr ((usage_blocks e ! i)\<lparr>tree := Some t\<rparr>) e w1")
      (auto simp: process_block_def Let_def)
  from assms t w1 nr d obtain p2 where p2: "update_processed_records nr p = Inr p2"
    by (cases "update_processed_records nr p") (auto simp: process_block_def Let_def)
  from p2 obtain rs where rs: "nr = Tuple rs" "p2 = p @ map ref rs"
    by (cases nr) (auto simp: update_processed_records_def)
  from assms t w1 nr d p2 rs show ?thesis
    by (auto simp: process_block_def Let_def)
qed




subsection \<open>C4: the artifact-API handler\<close>

lemma init_data_node_kind:
  "init_data_node r w = Inr n \<Longrightarrow>
     (\<exists>stype load. kind n = Data stype load) \<and> name n = Some (ref r)"
  by (auto simp: init_data_node_def Let_def UsageDataNode_def
      split: sum.splits result_value.splits)

lemma init_metadata_node_kind:
  "init_metadata_node r w = Inr n \<Longrightarrow>
     (\<exists>load preview. kind n = MetadataPreview load preview) \<and> name n = Some (ref r)"
  by (auto simp: init_metadata_node_def Let_def UsageMetadataNode_def
      split: sum.splits result_value.splits)

lemma append_example_result:
  assumes "append_example use blk w = Inr (blk', w')"
  shows "\<exists>n others titles examples.
           nodes blk = n # others \<and> kind n = Example titles examples
           \<and> nodes blk' = n\<lparr>kind := Example (titles @ [''Artifact API''])
                                   (examples @ [rendering (MetaUsage w use)])\<rparr> # others
           \<and> w' = snd (render use w)"
proof -
  from assms obtain n others where ns: "nodes blk = n # others"
    by (cases "nodes blk") (auto simp: append_example_def)
  from assms ns obtain titles examples where k: "kind n = Example titles examples"
    by (cases "kind n") (auto simp: append_example_def split: prod.splits)
  from assms ns k show ?thesis
    by (auto simp: append_example_def render_def Let_def split: prod.splits)
qed

lemma api_loop_result:
  assumes "api_loop use rs blk w = Inr (blk', w')"
  shows "\<exists>ns. list_all2 (\<lambda>r n. (source r = ''init_data'' \<and> init_data_node r w = Inr n)
                           \<or> (source r = ''init_metadata'' \<and> init_metadata_node r w = Inr n))
                 (filter (\<lambda>r. source r = ''init_data'' \<or> source r = ''init_metadata'')
                    (takeWhile (\<lambda>r. source r \<noteq> ''action'') rs)) ns
          \<and> (if \<exists>r \<in> set rs. source r = ''action''
              then \<exists>n others titles examples.
                     nodes blk @ ns = n # others \<and> kind n = Example titles examples
                     \<and> nodes blk' = n\<lparr>kind := Example (titles @ [''Artifact API''])
                                   (examples @ [rendering (MetaUsage w use)])\<rparr> # others
                     \<and> w' = snd (render use w)
              else nodes blk' = nodes blk @ ns \<and> w' = w)"
  using assms
proof (induction rs arbitrary: blk)
  case Nil
  then show ?case by auto
next
  case (Cons r rs)
  have neq: "''init_data'' \<noteq> ''action''" "''init_metadata'' \<noteq> ''action''"
    "''init_data'' \<noteq> ''init_metadata''"
    by simp_all
  consider (data) "source r = ''init_data''" | (meta) "source r = ''init_metadata''"
    | (action) "source r = ''action''"
    | (other) "source r \<noteq> ''init_data''" "source r \<noteq> ''init_metadata''"
        "source r \<noteq> ''action''"
    by blast
  then show ?case
  proof cases
    case data
    with Cons.prems obtain dn where dn: "init_data_node r w = Inr dn"
      and rest: "api_loop use rs (blk\<lparr>nodes := nodes blk @ [dn]\<rparr>) w = Inr (blk', w')"
      by (auto split: sum.splits)
    from Cons.IH [OF rest] obtain ns where
      l: "list_all2 (\<lambda>r n. (source r = ''init_data'' \<and> init_data_node r w = Inr n)
                           \<or> (source r = ''init_metadata'' \<and> init_metadata_node r w = Inr n))
                 (filter (\<lambda>r. source r = ''init_data'' \<or> source r = ''init_metadata'')
                    (takeWhile (\<lambda>r. source r \<noteq> ''action'') rs)) ns"
      and c0: "if \<exists>r \<in> set rs. source r = ''action''
              then \<exists>n others titles examples.
                     nodes (blk\<lparr>nodes := nodes blk @ [dn]\<rparr>) @ ns = n # others
                     \<and> kind n = Example titles examples
                     \<and> nodes blk' = n\<lparr>kind := Example (titles @ [''Artifact API''])
                                   (examples @ [rendering (MetaUsage w use)])\<rparr> # others
                     \<and> w' = snd (render use w)
              else nodes blk' = nodes (blk\<lparr>nodes := nodes blk @ [dn]\<rparr>) @ ns \<and> w' = w"
      by blast
    from c0 have c: "if \<exists>r \<in> set rs. source r = ''action''
              then \<exists>n others titles examples.
                     nodes blk @ dn # ns = n # others \<and> kind n = Example titles examples
                     \<and> nodes blk' = n\<lparr>kind := Example (titles @ [''Artifact API''])
                                   (examples @ [rendering (MetaUsage w use)])\<rparr> # others
                     \<and> w' = snd (render use w)
              else nodes blk' = nodes blk @ dn # ns \<and> w' = w"
      by (simp cong: if_cong)
    from data neq have na: "source r \<noteq> ''action''" by simp
    show ?thesis
      using l c data dn na by (intro exI [of _ "dn # ns"]) auto
  next
    case meta
    with neq have nd: "source r \<noteq> ''init_data''" and na: "source r \<noteq> ''action''"
      by simp_all
    from meta nd Cons.prems obtain dn where dn: "init_metadata_node r w = Inr dn"
      and rest: "api_loop use rs (blk\<lparr>nodes := nodes blk @ [dn]\<rparr>) w = Inr (blk', w')"
      by (auto split: sum.splits)
    from Cons.IH [OF rest] obtain ns where
      l: "list_all2 (\<lambda>r n. (source r = ''init_data'' \<and> init_data_node r w = Inr n)
                           \<or> (source r = ''init_metadata'' \<and> init_metadata_node r w = Inr n))
                 (filter (\<lambda>r. source r = ''init_data'' \<or> source r = ''init_metadata'')
                    (takeWhile (\<lambda>r. source r \<noteq> ''action'') rs)) ns"
      and c0: "if \<exists>r \<in> set rs. source r = ''action''
              then \<exists>n others titles examples.
                     nodes (blk\<lparr>nodes := nodes blk @ [dn]\<rparr>) @ ns = n # others
                     \<and> kind n = Example titles examples
                     \<and> nodes blk' = n\<lparr>kind := Example (titles @ [''Artifact API''])
                                   (examples @ [rendering (MetaUsage w use)])\<rparr> # others
                     \<and> w' = snd (render use w)
              else nodes blk' = nodes (blk\<lparr>nodes := nodes blk @ [dn]\<rparr>) @ ns \<and> w' = w"
      by blast
    from c0 have c: "if \<exists>r \<in> set rs. source r = ''action''
              then \<exists>n others titles examples.
                     nodes blk @ dn # ns = n # others \<and> kind n = Example titles examples
                     \<and> nodes blk' = n\<lparr>kind := Example (titles @ [''Artifact API''])
                                   (examples @ [rendering (MetaUsage w use)])\<rparr> # others
                     \<and> w' = snd (render use w)
              else nodes blk' = nodes blk @ dn # ns \<and> w' = w"
      by (simp cong: if_cong)
    show ?thesis
      using l c meta dn na nd by (intro exI [of _ "dn # ns"]) auto
  next
    case action
    with neq have nd: "source r \<noteq> ''init_data''" and nm: "source r \<noteq> ''init_metadata''"
      by simp_all
    from action nd nm Cons.prems have "append_example use blk w = Inr (blk', w')"
      by simp
    from append_example_result [OF this] action show ?thesis
      by (intro exI [of _ "[]"]) auto
  next
    case other
    with Cons.prems have rest: "api_loop use rs blk w = Inr (blk', w')"
      by simp
    from Cons.IH [OF rest] other show ?thesis
      by auto
  qed
qed


lemma list_all2_hd_kind:
  assumes "list_all2 (\<lambda>r n. (source r = ''init_data'' \<and> init_data_node r w = Inr n)
                           \<or> (source r = ''init_metadata'' \<and> init_metadata_node r w = Inr n))
             xs (n # others)"
  shows "\<forall>titles examples. kind n \<noteq> Example titles examples"
proof -
  from assms obtain r where
    "init_data_node r w = Inr n \<or> init_metadata_node r w = Inr n"
    by (auto simp: list_all2_Cons2)
  then show ?thesis
    using init_data_node_kind [of r w n] init_metadata_node_kind [of r w n] by auto
qed

lemma append_example_succeeds:
  assumes "nodes blk = n # others" and "kind n = Example titles examples"
  shows "\<exists>blk' w'. append_example use blk w = Inr (blk', w')"
  using assms by (simp add: append_example_def split: prod.splits)

lemma api_loop_succeeds:
  assumes "\<forall>r \<in> set (takeWhile (\<lambda>r. source r \<noteq> ''action'') rs).
             (source r = ''init_data'' \<longrightarrow> (\<exists>n. init_data_node r w = Inr n))
             \<and> (source r = ''init_metadata'' \<longrightarrow> (\<exists>n. init_metadata_node r w = Inr n))"
    and "(\<exists>r \<in> set rs. source r = ''action'') \<longrightarrow>
           (\<exists>n others titles examples. nodes blk = n # others \<and> kind n = Example titles examples)"
  shows "\<exists>blk' w'. api_loop use rs blk w = Inr (blk', w')"
  using assms
proof (induction rs arbitrary: blk)
  case Nil
  then show ?case by simp
next
  case (Cons r rs)
  have neq: "''init_data'' \<noteq> ''action''" "''init_metadata'' \<noteq> ''action''"
    "''init_data'' \<noteq> ''init_metadata''"
    by simp_all
  consider (data) "source r = ''init_data''"
    | (meta) "source r \<noteq> ''init_data''" "source r = ''init_metadata''"
    | (action) "source r \<noteq> ''init_data''" "source r \<noteq> ''init_metadata''"
        "source r = ''action''"
    | (other) "source r \<noteq> ''init_data''" "source r \<noteq> ''init_metadata''"
        "source r \<noteq> ''action''"
    by blast
  then show ?case
  proof cases
    case data
    with neq have na: "source r \<noteq> ''action''" by simp
    with Cons.prems(1) data obtain dn where dn: "init_data_node r w = Inr dn" by auto
    from Cons.prems(1) na have init: "\<forall>r \<in> set (takeWhile (\<lambda>r. source r \<noteq> ''action'') rs).
             (source r = ''init_data'' \<longrightarrow> (\<exists>n. init_data_node r w = Inr n))
             \<and> (source r = ''init_metadata'' \<longrightarrow> (\<exists>n. init_metadata_node r w = Inr n))"
      by simp
    from Cons.prems(2) have act: "(\<exists>r \<in> set rs. source r = ''action'') \<longrightarrow>
           (\<exists>n others titles examples.
              nodes (blk\<lparr>nodes := nodes blk @ [dn]\<rparr>) = n # others
              \<and> kind n = Example titles examples)"
      by auto
    from Cons.IH [OF init act] data dn show ?thesis by simp
  next
    case meta
    with neq have na: "source r \<noteq> ''action''" by simp
    with Cons.prems(1) meta obtain dn where dn: "init_metadata_node r w = Inr dn" by auto
    from Cons.prems(1) na have init: "\<forall>r \<in> set (takeWhile (\<lambda>r. source r \<noteq> ''action'') rs).
             (source r = ''init_data'' \<longrightarrow> (\<exists>n. init_data_node r w = Inr n))
             \<and> (source r = ''init_metadata'' \<longrightarrow> (\<exists>n. init_metadata_node r w = Inr n))"
      by simp
    from Cons.prems(2) have act: "(\<exists>r \<in> set rs. source r = ''action'') \<longrightarrow>
           (\<exists>n others titles examples.
              nodes (blk\<lparr>nodes := nodes blk @ [dn]\<rparr>) = n # others
              \<and> kind n = Example titles examples)"
      by auto
    from Cons.IH [OF init act] meta dn show ?thesis by simp
  next
    case action
    with Cons.prems(2) obtain n others titles examples where
      "nodes blk = n # others" "kind n = Example titles examples"
      by auto
    from append_example_succeeds [OF this] action show ?thesis by simp
  next
    case other
    with Cons.prems have init: "\<forall>r \<in> set (takeWhile (\<lambda>r. source r \<noteq> ''action'') rs).
             (source r = ''init_data'' \<longrightarrow> (\<exists>n. init_data_node r w = Inr n))
             \<and> (source r = ''init_metadata'' \<longrightarrow> (\<exists>n. init_metadata_node r w = Inr n))"
      and act: "(\<exists>r \<in> set rs. source r = ''action'') \<longrightarrow>
           (\<exists>n others titles examples. nodes blk = n # others \<and> kind n = Example titles examples)"
      by simp_all
    from Cons.IH [OF init act] other show ?thesis by simp
  qed
qed

lemma init_data_node_iff:
  "init_data_node r w = Inr n \<longleftrightarrow>
     (\<exists>er stype. get_record (MetaUsage w ExecutionUsage) (Some (ref r)) = Inr er
        \<and> result er = Artifact stype
        \<and> n = UsageDataNode stype
                (ref r @ '' = qiime2.Artifact.load('' @ [CHR 0x27] @ ref r @ ''.qza''
                   @ [CHR 0x27] @ '')'') (ref r))"
  by (auto simp: init_data_node_def Let_def split: sum.splits result_value.splits)

lemma init_metadata_node_iff:
  "init_metadata_node r w = Inr n \<longleftrightarrow>
     (\<exists>er df. get_record (MetaUsage w ExecutionUsage) (Some (ref r)) = Inr er
        \<and> result er = Metadata df
        \<and> n = UsageMetadataNode
                (ref r @ '' = qiime2.Metadata.load('' @ [CHR 0x27] @ ref r @ ''.qza''
                   @ [CHR 0x27] @ '')'') df (ref r))"
  by (auto simp: init_metadata_node_def Let_def split: sum.splits result_value.splits)

lemma artifact_api_post:
  assumes "artifact_api use (Tuple rs) blk e w = Inr (blk', w')"
  shows "\<exists>ns. list_all2 (\<lambda>r n. (source r = ''init_data'' \<and> init_data_node r w = Inr n)
                           \<or> (source r = ''init_metadata'' \<and> init_metadata_node r w = Inr n))
                 (filter (\<lambda>r. source r = ''init_data'' \<or> source r = ''init_metadata'')
                    (takeWhile (\<lambda>r. source r \<noteq> ''action'') rs)) ns
          \<and> (if \<exists>r \<in> set rs. source r = ''action''
              then \<exists>n others titles examples.
                     nodes blk = n # others \<and> kind n = Example titles examples
                     \<and> nodes blk' = n\<lparr>kind := Example (titles @ [''Artifact API''])
                                   (examples @ [rendering (MetaUsage w use)])\<rparr> # others @ ns
                     \<and> w' = snd (render use w)
                     \<and> render_calls (MetaUsage w' use) = Suc (render_calls (MetaUsage w use))
              else nodes blk' = nodes blk @ ns \<and> w' = w)"
proof -
  from assms have loop: "api_loop use rs blk w = Inr (blk', w')"
    by (simp add: artifact_api_def)
  from api_loop_result [OF loop] obtain ns where
    l: "list_all2 (\<lambda>r n. (source r = ''init_data'' \<and> init_data_node r w = Inr n)
                           \<or> (source r = ''init_metadata'' \<and> init_metadata_node r w = Inr n))
                 (filter (\<lambda>r. source r = ''init_data'' \<or> source r = ''init_metadata'')
                    (takeWhile (\<lambda>r. source r \<noteq> ''action'') rs)) ns"
    and c: "if \<exists>r \<in> set rs. source r = ''action''
              then \<exists>n others titles examples.
                     nodes blk @ ns = n # others \<and> kind n = Example titles examples
                     \<and> nodes blk' = n\<lparr>kind := Example (titles @ [''Artifact API''])
                                   (examples @ [rendering (MetaUsage w use)])\<rparr> # others
                     \<and> w' = snd (render use w)
              else nodes blk' = nodes blk @ ns \<and> w' = w"
    by blast
  have post: "if \<exists>r \<in> set rs. source r = ''action''
              then \<exists>n others titles examples.
                     nodes blk = n # others \<and> kind n = Example titles examples
                     \<and> nodes blk' = n\<lparr>kind := Example (titles @ [''Artifact API''])
                                   (examples @ [rendering (MetaUsage w use)])\<rparr> # others @ ns
                     \<and> w' = snd (render use w)
                     \<and> render_calls (MetaUsage w' use) = Suc (render_calls (MetaUsage w use))
              else nodes blk' = nodes blk @ ns \<and> w' = w"
  proof (cases "\<exists>r \<in> set rs. source r = ''action''")
    case False
    with c show ?thesis by simp
  next
    case True
    with c obtain n others titles examples where
      eq: "nodes blk @ ns = n # others" and k: "kind n = Example titles examples"
      and n': "nodes blk' = n\<lparr>kind := Example (titles @ [''Artifact API''])
                                   (examples @ [rendering (MetaUsage w use)])\<rparr> # others"
      and w': "w' = snd (render use w)"
      by auto
    have ne: "nodes blk \<noteq> []"
    proof
      assume "nodes blk = []"
      with eq l have "list_all2 (\<lambda>r n. (source r = ''init_data'' \<and> init_data_node r w = Inr n)
                           \<or> (source r = ''init_metadata'' \<and> init_metadata_node r w = Inr n))
                 (filter (\<lambda>r. source r = ''init_data'' \<or> source r = ''init_metadata'')
                    (takeWhile (\<lambda>r. source r \<noteq> ''action'') rs)) (n # others)"
        by simp
      from list_all2_hd_kind [OF this] k show False by simp
    qed
    then obtain m rest where m: "nodes blk = m # rest" by (cases "nodes blk") auto
    with eq have "m = n" "others = rest @ ns" by auto
    moreover from w' have "render_calls (MetaUsage w' use) = Suc (render_calls (MetaUsage w use))"
      by (simp add: render_def Let_def)
    ultimately show ?thesis
      using True m k n' w' by auto
  qed
  from l post show ?thesis by blast
qed

lemma artifact_api_succeeds:
  assumes "\<forall>r \<in> set (takeWhile (\<lambda>r. source r \<noteq> ''action'') rs).
             (source r = ''init_data'' \<longrightarrow> (\<exists>n. init_data_node r w = Inr n))
             \<and> (source r = ''init_metadata'' \<longrightarrow> (\<exists>n. init_metadata_node r w = Inr n))"
    and "(\<exists>r \<in> set rs. source r = ''action'') \<longrightarrow>
           (\<exists>n others titles examples. nodes blk = n # others \<and> kind n = Example titles examples)"
  shows "\<exists>blk' w'. artifact_api use (Tuple rs) blk e w = Inr (blk', w')"
  using api_loop_succeeds [OF assms] by (simp add: artifact_api_def)

text \<open>
  C4. The artifact-API handler on a tuple of records.

  \<^item> \<open>init_data_node\<close> returns exactly when the execution usage object holds a record
    under the record's ref whose result is an artifact, and then the data node that
    carries the artifact's type, the load statement
    \<open><ref> = qiime2.Artifact.load('<ref>.qza')\<close> and the name \<open><ref>\<close>;
    \<open>init_metadata_node\<close> likewise for a metadata result, with the metadata node that
    carries the load statement \<open><ref> = qiime2.Metadata.load('<ref>.qza')\<close>, the text of
    the dataframe and the name.
  \<^item> When the handler returns, every record with the source \<open>init_data\<close> or
    \<open>init_metadata\<close> that comes before the first \<open>action\<close> record has appended that
    node, in order. If there is an \<open>action\<close> record, the first node of the block as it was
    before the call is an example node; it is still the first node and has gained the
    title \<open>Artifact API\<close> and the output of the single call of \<open>render\<close>; no node is
    created for the action and the records after it add nothing. Without an \<open>action\<close>
    record the usage objects are unchanged.
  \<^item> The handler does return when the node of every such record before the first
    \<open>action\<close> record can be built and, if there is an \<open>action\<close> record, the first node
    of the block is an example node.
\<close>

theorem artifact_api_nodes:
  "(artifact_api use (Tuple rs) blk e w = Inr (blk', w') \<longrightarrow>
      (\<exists>ns. list_all2 (\<lambda>r n. (source r = ''init_data'' \<and> init_data_node r w = Inr n)
                           \<or> (source r = ''init_metadata'' \<and> init_metadata_node r w = Inr n))
                 (filter (\<lambda>r. source r = ''init_data'' \<or> source r = ''init_metadata'')
                    (takeWhile (\<lambda>r. source r \<noteq> ''action'') rs)) ns
          \<and> (if \<exists>r \<in> set rs. source r = ''action''
              then \<exists>n others titles examples.
                     nodes blk = n # others \<and> kind n = Example titles examples
                     \<and> nodes blk' = n\<lparr>kind := Example (titles @ [''Artifact API''])
                                   (examples @ [rendering (MetaUsage w use)])\<rparr> # others @ ns
                     \<and> w' = snd (render use w)
                     \<and> render_calls (MetaUsage w' use) = Suc (render_calls (MetaUsage w use))
              else nodes blk' = nodes blk @ ns \<and> w' = w)))
   \<and> (\<forall>r n. init_data_node r w = Inr n \<longleftrightarrow>
         (\<exists>er stype. get_record (MetaUsage w ExecutionUsage) (Some (ref r)) = Inr er
            \<and> result er = Artifact stype
            \<and> n = UsageDataNode stype
                    (ref r @ '' = qiime2.Artifact.load('' @ [CHR 0x27] @ ref r @ ''.qza''
                       @ [CHR 0x27] @ '')'') (ref r)))
   \<and> (\<forall>r n. init_metadata_node r w = Inr n \<longleftrightarrow>
         (\<exists>er df. get_record (MetaUsage w ExecutionUsage) (Some (ref r)) = Inr er
            \<and> result er = Metadata df
            \<and> n = UsageMetadataNode
                    (ref r @ '' = qiime2.Metadata.load('' @ [CHR 0x27] @ ref r @ ''.qza''
                       @ [CHR 0x27] @ '')'') df (ref r)))
   \<and> (\<forall>r n. init_data_node r w = Inr n \<longrightarrow>
         (\<exists>stype load. kind n = Data stype load) \<and> name n = Some (ref r))
   \<and> (\<forall>r n. init_metadata_node r w = Inr n \<longrightarrow>
         (\<exists>load preview. kind n = MetadataPreview load preview) \<and> name n = Some (ref r))
   \<and> ((\<forall>r \<in> set (takeWhile (\<lambda>r. source r \<noteq> ''action'') rs).
          (source r = ''init_data'' \<longrightarrow> (\<exists>n. init_data_node r w = Inr n))
          \<and> (source r = ''init_metadata'' \<longrightarrow> (\<exists>n. init_metadata_node r w = Inr n)))
       \<and> ((\<exists>r \<in> set rs. source r = ''action'') \<longrightarrow>
            (\<exists>n others titles examples.
               nodes blk = n # others \<and> kind n = Example titles examples))
       \<longrightarrow> (\<exists>blk2 w2. artifact_api use (Tuple rs) blk e w = Inr (blk2, w2)))
   \<and> records_to_nodes py ArtifactAPIUsage (Tuple rs) blk e w
       = artifact_api ArtifactAPIUsage (Tuple rs) blk e w"
proof (intro conjI)
  show "artifact_api use (Tuple rs) blk e w = Inr (blk', w') \<longrightarrow>
      (\<exists>ns. list_all2 (\<lambda>r n. (source r = ''init_data'' \<and> init_data_node r w = Inr n)
                           \<or> (source r = ''init_metadata'' \<and> init_metadata_node r w = Inr n))
                 (filter (\<lambda>r. source r = ''init_data'' \<or> source r = ''init_metadata'')
                    (takeWhile (\<lambda>r. source r \<noteq> ''action'') rs)) ns
          \<and> (if \<exists>r \<in> set rs. source r = ''action''
              then \<exists>n others titles examples.
                     nodes blk = n # others \<and> kind n = Example titles examples
                     \<and> nodes blk' = n\<lparr>kind := Example (titles @ [''Artifact API''])
                                   (examples @ [rendering (MetaUsage w use)])\<rparr> # others @ ns
                     \<and> w' = snd (render use w)
                     \<and> render_calls (MetaUsage w' use) = Suc (render_calls (MetaUsage w use))
              else nodes blk' = nodes blk @ ns \<and> w' = w))"
    using artifact_api_post by blast
  show "\<forall>r n. init_data_node r w = Inr n \<longleftrightarrow>
         (\<exists>er stype. get_record (MetaUsage w ExecutionUsage) (Some (ref r)) = Inr er
            \<and> result er = Artifact stype
            \<and> n = UsageDataNode stype
                    (ref r @ '' = qiime2.Artifact.load('' @ [CHR 0x27] @ ref r @ ''.qza''
                       @ [CHR 0x27] @ '')'') (ref r))"
    using init_data_node_iff by blast
  show "\<forall>r n. init_metadata_node r w = Inr n \<longleftrightarrow>
         (\<exists>er df. get_record (MetaUsage w ExecutionUsage) (Some (ref r)) = Inr er
            \<and> result er = Metadata df
            \<and> n = UsageMetadataNode
                    (ref r @ '' = qiime2.Metadata.load('' @ [CHR 0x27] @ ref r @ ''.qza''
                       @ [CHR 0x27] @ '')'') df (ref r))"
    using init_metadata_node_iff by blast
  show "\<forall>r n. init_data_node r w = Inr n \<longrightarrow>
         (\<exists>stype load. kind n = Data stype load) \<and> name n = Some (ref r)"
    using init_data_node_kind by blast
  show "\<forall>r n. init_metadata_node r w = Inr n \<longrightarrow>
         (\<exists>load preview. kind n = MetadataPreview load preview) \<and> name n = Some (ref r)"
    using init_metadata_node_kind by blast
  show "(\<forall>r \<in> set (takeWhile (\<lambda>r. source r \<noteq> ''action'') rs).
          (source r = ''init_data'' \<longrightarrow> (\<exists>n. init_data_node r w = Inr n))
          \<and> (source r = ''init_metadata'' \<longrightarrow> (\<exists>n. init_metadata_node r w = Inr n)))
       \<and> ((\<exists>r \<in> set rs. source r = ''action'') \<longrightarrow>
            (\<exists>n others titles examples.
               nodes blk = n # others \<and> kind n = Example titles examples))
       \<longrightarrow> (\<exists>blk2 w2. artifact_api use (Tuple rs) blk e w = Inr (blk2, w2))"
    using artifact_api_succeeds [of rs w blk use e] by blast
  show "records_to_nodes py ArtifactAPIUsage (Tuple rs) blk e w
       = artifact_api ArtifactAPIUsage (Tuple rs) blk e w"
    by (simp add: records_to_nodes_def)
qed

text \<open>
  Witness for C4: a metadata record, an artifact record, an action record and a second
  metadata record, on a block that holds the example node of the command-line
  strategy.
\<close>

theorem artifact_api_nodes_witness:
  "\<not> isl (artifact_api ArtifactAPIUsage (Tuple [ex_metadata, ex_artifact, ex_action, ex_metadata])
            (ex_block [UsageExampleNode [''Command Line''] [Str ''qx'']]) (ex_env []) ex_world)
   \<and> nodes (fst (projr (artifact_api ArtifactAPIUsage
            (Tuple [ex_metadata, ex_artifact, ex_action, ex_metadata])
            (ex_block [UsageExampleNode [''Command Line''] [Str ''qx'']]) (ex_env []) ex_world)))
       = [(UsageExampleNode [''Command Line''] [Str ''qx''])
            \<lparr>kind := Example [''Command Line'', ''Artifact API''] [Str ''qx'', Seq [''q'', ''x'']]\<rparr>,
          UsageMetadataNode
            (''m = qiime2.Metadata.load('' @ [CHR 0x27] @ ''m.qza'' @ [CHR 0x27] @ '')'')
            ''df'' ''m'',
          UsageDataNode ''T''
            (''a = qiime2.Artifact.load('' @ [CHR 0x27] @ ''a.qza'' @ [CHR 0x27] @ '')'') ''a'']
   \<and> init_metadata_node ex_metadata ex_world
       = Inr (UsageMetadataNode
            (''m = qiime2.Metadata.load('' @ [CHR 0x27] @ ''m.qza'' @ [CHR 0x27] @ '')'')
            ''df'' ''m'')
   \<and> init_data_node ex_artifact ex_world
       = Inr (UsageDataNode ''T''
            (''a = qiime2.Artifact.load('' @ [CHR 0x27] @ ''a.qza'' @ [CHR 0x27] @ '')'') ''a'')
   \<and> isl (init_metadata_node ex_action ex_world)
   \<and> render_calls (MetaUsage ex_world ArtifactAPIUsage) = 0
   \<and> render_calls (MetaUsage (snd (projr (artifact_api ArtifactAPIUsage
            (Tuple [ex_metadata, ex_artifact, ex_action, ex_metadata])
            (ex_block [UsageExampleNode [''Command Line''] [Str ''qx'']]) (ex_env []) ex_world)))
          ArtifactAPIUsage) = 1"
proof -
  define X where "X = artifact_api ArtifactAPIUsage
            (Tuple [ex_metadata, ex_artifact, ex_action, ex_metadata])
            (ex_block [UsageExampleNode [''Command Line''] [Str ''qx'']]) (ex_env []) ex_world"
  have a: "\<not> isl X" unfolding X_def by code_simp
  have b: "nodes (fst (projr X))
       = [(UsageExampleNode [''Command Line''] [Str ''qx''])
            \<lparr>kind := Example [''Command Line'', ''Artifact API''] [Str ''qx'', Seq [''q'', ''x'']]\<rparr>,
          UsageMetadataNode
            (''m = qiime2.Metadata.load('' @ [CHR 0x27] @ ''m.qza'' @ [CHR 0x27] @ '')'')
            ''df'' ''m'',
          UsageDataNode ''T''
            (''a = qiime2.Artifact.load('' @ [CHR 0x27] @ ''a.qza'' @ [CHR 0x27] @ '')'') ''a'']"
    unfolding X_def by code_simp
  have c: "render_calls (MetaUsage ex_world ArtifactAPIUsage) = 0" by code_simp
  have m: "init_metadata_node ex_metadata ex_world
       = Inr (UsageMetadataNode
            (''m = qiime2.Metadata.load('' @ [CHR 0x27] @ ''m.qza'' @ [CHR 0x27] @ '')'')
            ''df'' ''m'')"
    by code_simp
  have da: "init_data_node ex_artifact ex_world
       = Inr (UsageDataNode ''T''
            (''a = qiime2.Artifact.load('' @ [CHR 0x27] @ ''a.qza'' @ [CHR 0x27] @ '')'') ''a'')"
    by code_simp
  have f: "isl (init_metadata_node ex_action ex_world)" by code_simp
  have act: "\<exists>r \<in> set [ex_metadata, ex_artifact, ex_action, ex_metadata].
               source r = ''action''"
    by (simp add: ex_action_def)
  from a have d: "artifact_api ArtifactAPIUsage
            (Tuple [ex_metadata, ex_artifact, ex_action, ex_metadata])
            (ex_block [UsageExampleNode [''Command Line''] [Str ''qx'']]) (ex_env []) ex_world
       = Inr (fst (projr X), snd (projr X))"
    unfolding X_def by (cases "artifact_api ArtifactAPIUsage
            (Tuple [ex_metadata, ex_artifact, ex_action, ex_metadata])
            (ex_block [UsageExampleNode [''Command Line''] [Str ''qx'']]) (ex_env []) ex_world")
      auto
  note th = artifact_api_nodes [where use = ArtifactAPIUsage
      and rs = "[ex_metadata, ex_artifact, ex_action, ex_metadata]"
      and blk = "ex_block [UsageExampleNode [''Command Line''] [Str ''qx'']]"
      and e = "ex_env []" and w = ex_world
      and blk' = "fst (projr X)" and w' = "snd (projr X)"]
  from th have "artifact_api ArtifactAPIUsage
            (Tuple [ex_metadata, ex_artifact, ex_action, ex_metadata])
            (ex_block [UsageExampleNode [''Command Line''] [Str ''qx'']]) (ex_env []) ex_world
       = Inr (fst (projr X), snd (projr X)) \<longrightarrow>
      (\<exists>ns. list_all2 (\<lambda>r n. (source r = ''init_data'' \<and> init_data_node r ex_world = Inr n)
                           \<or> (source r = ''init_metadata''
                               \<and> init_metadata_node r ex_world = Inr n))
                 (filter (\<lambda>r. source r = ''init_data'' \<or> source r = ''init_metadata'')
                    (takeWhile (\<lambda>r. source r \<noteq> ''action'')
                       [ex_metadata, ex_artifact, ex_action, ex_metadata])) ns
          \<and> (if \<exists>r \<in> set [ex_metadata, ex_artifact, ex_action, ex_metadata].
                    source r = ''action''
              then \<exists>n others titles examples.
                     nodes (ex_block [UsageExampleNode [''Command Line''] [Str ''qx'']])
                       = n # others \<and> kind n = Example titles examples
                     \<and> nodes (fst (projr X))
                         = n\<lparr>kind := Example (titles @ [''Artifact API''])
                                   (examples @ [rendering (MetaUsage ex_world ArtifactAPIUsage)])\<rparr>
                             # others @ ns
                     \<and> snd (projr X) = snd (render ArtifactAPIUsage ex_world)
                     \<and> render_calls (MetaUsage (snd (projr X)) ArtifactAPIUsage)
                         = Suc (render_calls (MetaUsage ex_world ArtifactAPIUsage))
              else nodes (fst (projr X))
                     = nodes (ex_block [UsageExampleNode [''Command Line''] [Str ''qx'']]) @ ns
                   \<and> snd (projr X) = ex_world))"
    by (rule conjunct1)
  with d act
  have "render_calls (MetaUsage (snd (projr X)) ArtifactAPIUsage)
            = Suc (render_calls (MetaUsage ex_world ArtifactAPIUsage))"
    by (auto simp del: set_simps)
  with c have "render_calls (MetaUsage (snd (projr X)) ArtifactAPIUsage) = 1"
    by simp
  with a b c m da f show ?thesis
    unfolding X_def by simp
qed

subsection \<open>The structure of a run of the block processor\<close>

lemma scopes_ok_iff: "scopes_ok w = (\<forall>c. keys_are_refs (records (MetaUsage w c)))"
proof
  assume a: "scopes_ok w"
  show "\<forall>c. keys_are_refs (records (MetaUsage w c))"
  proof
    fix c
    from a show "keys_are_refs (records (MetaUsage w c))"
      by (cases c) (simp_all add: scopes_ok_def)
  qed
next
  assume "\<forall>c. keys_are_refs (records (MetaUsage w c))"
  then show "scopes_ok w" by (simp add: scopes_ok_def)
qed

lemma save_records_MetaUsage:
  "save_records d rs w = Inr w' \<Longrightarrow> MetaUsage w' = MetaUsage w"
  using save_records_files by blast

lemma execution_records:
  assumes "execution use recs blk e w = Inr (blk', w')"
  shows "MetaUsage w' = MetaUsage w"
proof -
  from assms obtain n ns where ns: "nodes blk = n # ns"
    by (cases "nodes blk") (auto simp: execution_def)
  from assms ns obtain root doc_name where dn: "get_docname n = Inr (root, doc_name)"
    by (cases "get_docname n") (auto simp: execution_def)
  from assms ns dn obtain rs where
    "save_records (results_dir e doc_name) rs
       (if \<not> path_exists w (results_dir e doc_name)
        then mkdir (results_dir e doc_name) w else w) = Inr w'"
    by (auto simp: execution_def Let_def split: sum.splits if_splits)
  from save_records_MetaUsage [OF this] show ?thesis
    by (simp add: mkdir_def split: if_splits)
qed

lemma render_records: "records (MetaUsage (snd (render use w)) c) = records (MetaUsage w c)"
  by (simp add: render_def Let_def)

lemma cli_records:
  assumes "cli use recs blk e w = Inr (blk', w')"
  shows "records (MetaUsage w' c) = records (MetaUsage w c)"
proof -
  from assms obtain rs where rs: "recs = Tuple rs"
    by (cases recs) (auto simp: cli_def)
  show ?thesis
  proof (cases "\<exists>r \<in> set rs. source r = ''action''")
    case True
    with assms rs have "w' = snd (render use w)"
      using cli_loop_action [of rs use blk w] by (simp add: cli_def)
    then show ?thesis by (simp add: render_records)
  next
    case False
    with assms rs have "w' = w"
      using cli_loop_no_action [of rs use blk w] by (simp add: cli_def)
    then show ?thesis by simp
  qed
qed

lemma artifact_api_records:
  assumes "artifact_api use recs blk e w = Inr (blk', w')"
  shows "records (MetaUsage w' c) = records (MetaUsage w c)"
proof -
  from assms obtain rs where rs: "recs = Tuple rs"
    by (cases recs) (auto simp: artifact_api_def)
  with assms have "api_loop use rs blk w = Inr (blk', w')"
    by (simp add: artifact_api_def)
  from api_loop_result [OF this] have "w' = snd (render use w) \<or> w' = w"
    by (auto split: if_splits)
  then show ?thesis by (auto simp: render_records)
qed

lemma records_to_nodes_records:
  assumes "records_to_nodes py use recs blk e w = Inr (blk', w')"
  shows "records (MetaUsage w' c) = records (MetaUsage w c)"
proof (cases use)
  case DiagnosticUsage
  with assms show ?thesis
    using diagnostic_frame [of py use recs blk e w blk' w']
    by (simp add: records_to_nodes_def)
next
  case CLIUsage
  with assms show ?thesis
    using cli_records [of use recs blk e w blk' w' c]
    by (simp add: records_to_nodes_def)
next
  case ArtifactAPIUsage
  with assms show ?thesis
    using artifact_api_records [of use recs blk e w blk' w' c]
    by (simp add: records_to_nodes_def)
next
  case ExecutionUsage
  with assms show ?thesis
    using execution_records [of use recs blk e w blk' w']
    by (simp add: records_to_nodes_def)
next
  case OtherUsage
  with assms show ?thesis
    by (simp add: records_to_nodes_def)
qed

lemma getitems_refs:
  assumes "getitems d ks = Inr rs" and "keys_are_refs d"
  shows "map ref rs = ks"
  using assms
proof (induction ks arbitrary: rs)
  case Nil
  then show ?case by simp
next
  case (Cons k ks)
  from Cons.prems(1) obtain r rs' where r: "getitem d k = Inr r"
    and rs': "getitems d ks = Inr rs'" and eq: "rs = r # rs'"
    by (auto split: sum.splits)
  from r have "(k, r) \<in> set d"
    by (auto simp: getitem_def split: option.splits dest: map_of_SomeD)
  with Cons.prems(2) have "ref r = k"
    by (auto simp: keys_are_refs_def list_all_iff)
  with Cons.IH [OF rs' Cons.prems(2)] eq show ?case by simp
qed

lemma get_new_records_refs:
  assumes "get_new_records d p = Inr (Tuple rs)" and "keys_are_refs d"
  shows "map ref rs = new_record_keys d p"
proof (cases "new_record_keys d p")
  case Nil
  with assms(1) show ?thesis by (simp add: get_new_records_def)
next
  case (Cons k ks)
  show ?thesis
  proof (cases ks)
    case Nil
    with Cons assms(1) show ?thesis
      by (simp add: get_new_records_def split: sum.splits)
  next
    case (Cons k2 ks2)
    with \<open>new_record_keys d p = k # ks\<close> assms(1)
    have "getitems d (new_record_keys d p) = Inr rs"
      by (simp add: get_new_records_def split: sum.splits)
    from getitems_refs [OF this assms(2)] show ?thesis .
  qed
qed

lemma get_new_records_fresh:
  assumes "get_new_records d p = Inr (Tuple rs)" and "keys_are_refs d"
  shows "set (map ref rs) \<inter> set p = {}"
  using get_new_records_refs [OF assms] by (auto simp: new_record_keys_def)

lemma blocks_loop_log:
  assumes "blocks_loop py use [i..<i + m] (e, w, p, log) = Inr (e', w', p', log')"
  shows "\<exists>rss. length rss = m
           \<and> log' = log @ pass_events use i p rss
           \<and> p' = p @ concat (map (map ref) rss)
           \<and> length (usage_blocks e') = length (usage_blocks e)
           \<and> ((\<forall>t u v v1. scopes_ok v \<longrightarrow> exec py t u v = Inr v1 \<longrightarrow> scopes_ok v1)
                \<longrightarrow> scopes_ok w \<longrightarrow> fresh_refs p rss \<and> scopes_ok w')"
  using assms
proof (induction m arbitrary: i e w p log)
  case 0
  then show ?case by simp
next
  case (Suc m)
  have upt: "[i..<i + Suc m] = i # [Suc i..<Suc i + m]"
    by (simp add: upt_conv_Cons)
  from Suc.prems upt obtain st1 where
    st1: "process_block py use i (e, w, p, log) = Inr st1"
    and rest0: "blocks_loop py use [Suc i..<Suc i + m] st1 = Inr (e', w', p', log')"
    by (cases "process_block py use i (e, w, p, log)") auto
  obtain e1 w1 p1 log1 where st1_eq: "st1 = (e1, w1, p1, log1)"
    by (cases st1) auto
  from process_block_cases [OF st1 [unfolded st1_eq]] obtain t v1 rs blk2 where
    ex: "exec py t use w = Inr v1"
    and nr: "get_new_records (records (MetaUsage v1 use)) p = Inr (Tuple rs)"
    and d: "records_to_nodes py use (Tuple rs) ((usage_blocks e ! i)\<lparr>tree := Some t\<rparr>) e v1
               = Inr (blk2, w1)"
    and e1: "e1 = e\<lparr>usage_blocks := (usage_blocks e)[i := blk2]\<rparr>"
    and p1: "p1 = p @ map ref rs"
    and log1: "log1 = log @ [Parsed i, Executed use i, Dispatched use i (Tuple rs) p]"
    by blast
  from Suc.IH [OF rest0 [unfolded st1_eq]] obtain rss where
    len: "length rss = m"
    and log': "log' = log1 @ pass_events use (Suc i) p1 rss"
    and p': "p' = p1 @ concat (map (map ref) rss)"
    and le: "length (usage_blocks e') = length (usage_blocks e1)"
    and inv: "(\<forall>t u v v1. scopes_ok v \<longrightarrow> exec py t u v = Inr v1 \<longrightarrow> scopes_ok v1)
                \<longrightarrow> scopes_ok w1 \<longrightarrow> fresh_refs p1 rss \<and> scopes_ok w'"
    by blast
  have same: "\<And>c. records (MetaUsage w1 c) = records (MetaUsage v1 c)"
    using records_to_nodes_records [OF d] .
  have inv': "(\<forall>t u v v1. scopes_ok v \<longrightarrow> exec py t u v = Inr v1 \<longrightarrow> scopes_ok v1)
                \<longrightarrow> scopes_ok w \<longrightarrow> fresh_refs p (rs # rss) \<and> scopes_ok w'"
  proof (intro impI)
    assume h: "\<forall>t u v v1. scopes_ok v \<longrightarrow> exec py t u v = Inr v1 \<longrightarrow> scopes_ok v1"
      and ok: "scopes_ok w"
    from h ok ex have v1: "scopes_ok v1" by blast
    then have "scopes_ok w1" using same by (simp add: scopes_ok_iff)
    with inv h have r: "fresh_refs p1 rss" "scopes_ok w'" by auto
    from v1 have "keys_are_refs (records (MetaUsage v1 use))"
      by (simp add: scopes_ok_iff)
    from get_new_records_fresh [OF nr this] r p1
    show "fresh_refs p (rs # rss) \<and> scopes_ok w'" by simp
  qed
  show ?case
    using len log' p' le e1 p1 log1 inv'
    by (intro exI [of _ "rs # rss"]) simp
qed

lemma strategy_pass_log:
  assumes "strategy_pass py use (e, w, log) = Inr (e', w', log')"
  shows "\<exists>rss. length rss = length (usage_blocks e)
           \<and> log' = log @ pass_events use 0 [] rss
           \<and> length (usage_blocks e') = length (usage_blocks e)
           \<and> ((\<forall>t u v v1. scopes_ok v \<longrightarrow> exec py t u v = Inr v1 \<longrightarrow> scopes_ok v1)
                \<longrightarrow> scopes_ok w \<longrightarrow> fresh_refs [] rss \<and> scopes_ok w')"
proof -
  from assms obtain p' where
    "blocks_loop py use [0..<0 + length (usage_blocks e)] (e, w, [], log) = Inr (e', w', p', log')"
    by (auto simp: strategy_pass_def split: sum.splits)
  from blocks_loop_log [OF this] show ?thesis by auto
qed

lemma strategies_loop_log:
  assumes "strategies_loop py uses (e, w, log) = Inr (e', w', log')"
  shows "\<exists>rsss. length rsss = length uses
           \<and> log' = log @ passes_events uses rsss
           \<and> length (usage_blocks e') = length (usage_blocks e)
           \<and> (\<forall>rss \<in> set rsss. length rss = length (usage_blocks e))
           \<and> ((\<forall>t u v v1. scopes_ok v \<longrightarrow> exec py t u v = Inr v1 \<longrightarrow> scopes_ok v1)
                \<longrightarrow> scopes_ok w \<longrightarrow> (\<forall>rss \<in> set rsss. fresh_refs [] rss) \<and> scopes_ok w')"
  using assms
proof (induction uses arbitrary: e w log)
  case Nil
  then show ?case by simp
next
  case (Cons use uses)
  from Cons.prems obtain st1 where
    st1: "strategy_pass py use (e, w, log) = Inr st1"
    and rest0: "strategies_loop py uses st1 = Inr (e', w', log')"
    by (cases "strategy_pass py use (e, w, log)") auto
  obtain e1 w1 log1 where st1_eq: "st1 = (e1, w1, log1)"
    by (cases st1) auto
  from strategy_pass_log [OF st1 [unfolded st1_eq]] obtain rss where
    len: "length rss = length (usage_blocks e)"
    and log1: "log1 = log @ pass_events use 0 [] rss"
    and le1: "length (usage_blocks e1) = length (usage_blocks e)"
    and inv1: "(\<forall>t u v v1. scopes_ok v \<longrightarrow> exec py t u v = Inr v1 \<longrightarrow> scopes_ok v1)
                \<longrightarrow> scopes_ok w \<longrightarrow> fresh_refs [] rss \<and> scopes_ok w1"
    by blast
  from Cons.IH [OF rest0 [unfolded st1_eq]] obtain rsss where
    lens: "length rsss = length uses"
    and log': "log' = log1 @ passes_events uses rsss"
    and le: "length (usage_blocks e') = length (usage_blocks e1)"
    and all: "\<forall>rss \<in> set rsss. length rss = length (usage_blocks e1)"
    and inv: "(\<forall>t u v v1. scopes_ok v \<longrightarrow> exec py t u v = Inr v1 \<longrightarrow> scopes_ok v1)
                \<longrightarrow> scopes_ok w1 \<longrightarrow> (\<forall>rss \<in> set rsss. fresh_refs [] rss) \<and> scopes_ok w'"
    by blast
  show ?case
    using len log1 le1 inv1 lens log' le all inv
    by (intro exI [of _ "rss # rsss"]) auto
qed

lemma process_usage_blocks_log:
  assumes "process_usage_blocks py doctree e w = Inr (doctree', e', w', log)"
  shows "\<exists>rsss. length rsss = length MetaUsage_members
           \<and> log = passes_events MetaUsage_members rsss @ [Updated]
           \<and> length (usage_blocks e') = length (usage_blocks e)
           \<and> (\<forall>rss \<in> set rsss. length rss = length (usage_blocks e))
           \<and> ((\<forall>t u v v1. scopes_ok v \<longrightarrow> exec py t u v = Inr v1 \<longrightarrow> scopes_ok v1)
                \<longrightarrow> scopes_ok w \<longrightarrow> (\<forall>rss \<in> set rsss. fresh_refs [] rss))
           \<and> strategies_loop py MetaUsage_members (e, w\<lparr>cwd := srcdir e\<rparr>, [])
               = Inr (e', w', passes_events MetaUsage_members rsss)
           \<and> update_nodes doctree e' w' = Inr doctree'"
proof -
  from assms obtain log0 where
    loop: "strategies_loop py MetaUsage_members (e, w\<lparr>cwd := srcdir e\<rparr>, []) = Inr (e', w', log0)"
    and upd: "update_nodes doctree e' w' = Inr doctree'"
    and log: "log = log0 @ [Updated]"
    by (auto simp: process_usage_blocks_def split: sum.splits)
  have ok: "scopes_ok (w\<lparr>cwd := srcdir e\<rparr>) = scopes_ok w"
    by (simp add: scopes_ok_def)
  from strategies_loop_log [OF loop] ok loop upd log show ?thesis
    by auto
qed

subsection \<open>C7: strategies outside, blocks inside, one update at the end\<close>

lemma filter_pass_events:
  "filter not_dispatch (pass_events use i p rss)
     = concat (map (\<lambda>j. [Parsed j, Executed use j]) [i..<i + length rss])"
proof (induction rss arbitrary: i p)
  case Nil
  then show ?case by simp
next
  case (Cons rs rss)
  have "[i..<i + length (rs # rss)] = i # [Suc i..<Suc i + length rss]"
    using upt_conv_Cons [of i "i + Suc (length rss)"] by simp
  with Cons.IH [of "Suc i" "p @ map ref rs"] show ?case by simp
qed

lemma filter_passes_events:
  assumes "length rsss = length uses" and "\<forall>rss \<in> set rsss. length rss = n"
  shows "filter not_dispatch (passes_events uses rsss)
     = concat (map (\<lambda>use. concat (map (\<lambda>j. [Parsed j, Executed use j]) [0..<n])) uses)"
  using assms
proof (induction uses arbitrary: rsss)
  case Nil
  then show ?case by simp
next
  case (Cons use uses)
  then obtain rss rest where r: "rsss = rss # rest" by (cases rsss) auto
  with Cons.prems have "length rest = length uses" "\<forall>rss \<in> set rest. length rss = n"
    "length rss = n"
    by auto
  with Cons.IH [of rest] r show ?case
    by (simp add: filter_pass_events)
qed

lemma count_list_not_dispatch:
  "not_dispatch x \<Longrightarrow> count_list (filter not_dispatch xs) x = count_list xs x"
  by (induction xs) auto

lemma count_list_one_pass:
  "count_list (concat (map (\<lambda>j. [Parsed j, Executed use j]) [0..<n])) (Parsed i)
     = (if i < n then 1 else 0)"
  "count_list (concat (map (\<lambda>j. [Parsed j, Executed use j]) [0..<n])) (Executed u i)
     = (if u = use \<and> i < n then 1 else 0)"
  "count_list (concat (map (\<lambda>j. [Parsed j, Executed use j]) [0..<n])) Updated = 0"
  by (induction n) auto

lemma process_block_spec:
  "(case process_block py use i (e, w, p, log) of
      Inl err \<Rightarrow> Inl err | Inr (e1, w1, p1, log1) \<Rightarrow> Inr (e1, w1, p1))
     = spec_block_step py use i (e, w, p)"
  by (simp add: process_block_def spec_block_step_def bind_result_def Let_def
      split: sum.splits prod.splits)

lemma blocks_loop_spec:
  assumes "i = 0 \<longrightarrow> p = []"
  shows "(case blocks_loop py use [i..<i + m] (e, w, p, log) of
            Inl err \<Rightarrow> Inl err | Inr (e1, w1, p1, log1) \<Rightarrow> Inr (e1, w1, p1))
         = spec_steps py (map (Pair use) [i..<i + m]) (e, w, p)"
  using assms
proof (induction m arbitrary: i e w p log)
  case 0
  then show ?case by simp
next
  case (Suc m)
  have upt: "[i..<i + Suc m] = i # [Suc i..<Suc i + m]"
    by (simp add: upt_conv_Cons)
  from Suc.prems have p: "(if i = 0 then [] else p) = p" by simp
  show ?case
  proof (cases "process_block py use i (e, w, p, log)")
    case (Inl err)
    with process_block_spec [of py use i e w p log]
    have "spec_block_step py use i (e, w, p) = Inl err" by simp
    with Inl upt p show ?thesis by (simp add: bind_result_def)
  next
    case (Inr st1)
    obtain e1 w1 p1 log1 where st1: "st1 = (e1, w1, p1, log1)" by (cases st1) auto
    with Inr process_block_spec [of py use i e w p log]
    have s: "spec_block_step py use i (e, w, p) = Inr (e1, w1, p1)" by simp
    have "Suc i = 0 \<longrightarrow> p1 = []" by simp
    from Suc.IH [OF this, where e = e1 and w = w1 and log = log1] Inr st1 s upt p
    show ?thesis by (simp add: bind_result_def)
  qed
qed

lemma spec_steps_append:
  "spec_steps py (xs @ ys) st = bind_result (spec_steps py xs st) (spec_steps py ys)"
proof (induction xs arbitrary: st)
  case Nil
  then show ?case by (simp add: bind_result_def)
next
  case (Cons x xs)
  obtain use i where x: "x = (use, i)" by (cases x) auto
  obtain e w p where st: "st = (e, w, p)" by (cases st) auto
  show ?case
  proof (cases "spec_block_step py use i (e, w, if i = 0 then [] else p)")
    case (Inl err)
    with x st show ?thesis by (simp add: bind_result_def)
  next
    case (Inr st1)
    with x st Cons.IH [of st1] show ?thesis by (simp add: bind_result_def)
  qed
qed

lemma spec_steps_pass_start:
  "(case spec_steps py (map (Pair use) [0..<n]) (e, w, p) of
      Inl err \<Rightarrow> Inl err | Inr (e1, w1, p1) \<Rightarrow> Inr (e1, w1))
   = (case spec_steps py (map (Pair use) [0..<n]) (e, w, []) of
      Inl err \<Rightarrow> Inl err | Inr (e1, w1, p1) \<Rightarrow> Inr (e1, w1))"
proof (cases n)
  case 0
  then show ?thesis by simp
next
  case (Suc k)
  then have "[0..<n] = 0 # [Suc 0..<n]" by (simp add: upt_conv_Cons)
  then show ?thesis by simp
qed

lemma strategy_pass_spec:
  "(case strategy_pass py use (e, w, log) of
      Inl err \<Rightarrow> Inl err | Inr (e1, w1, log1) \<Rightarrow> Inr (e1, w1))
   = (case spec_steps py (map (Pair use) [0..<length (usage_blocks e)]) (e, w, p) of
      Inl err \<Rightarrow> Inl err | Inr (e1, w1, p1) \<Rightarrow> Inr (e1, w1))"
proof -
  have "(0::nat) = 0 \<longrightarrow> ([]::string list) = []" by simp
  from blocks_loop_spec [OF this, of py use "length (usage_blocks e)" e w log]
  have "(case blocks_loop py use [0..<length (usage_blocks e)] (e, w, [], log) of
            Inl err \<Rightarrow> Inl err | Inr (e1, w1, p1, log1) \<Rightarrow> Inr (e1, w1, p1))
         = spec_steps py (map (Pair use) [0..<length (usage_blocks e)]) (e, w, [])"
    by simp
  then have "(case strategy_pass py use (e, w, log) of
      Inl err \<Rightarrow> Inl err | Inr (e1, w1, log1) \<Rightarrow> Inr (e1, w1))
   = (case spec_steps py (map (Pair use) [0..<length (usage_blocks e)]) (e, w, []) of
      Inl err \<Rightarrow> Inl err | Inr (e1, w1, p1) \<Rightarrow> Inr (e1, w1))"
    by (auto simp: strategy_pass_def split: sum.splits)
  with spec_steps_pass_start [of py use "length (usage_blocks e)" e w p]
  show ?thesis by simp
qed

lemma strategies_loop_spec:
  "(case strategies_loop py uses (e, w, log) of
      Inl err \<Rightarrow> Inl err | Inr (e1, w1, log1) \<Rightarrow> Inr (e1, w1))
   = (case spec_steps py
             (concat (map (\<lambda>use. map (Pair use) [0..<length (usage_blocks e)]) uses))
             (e, w, p) of
      Inl err \<Rightarrow> Inl err | Inr (e1, w1, p1) \<Rightarrow> Inr (e1, w1))"
proof (induction uses arbitrary: e w log p)
  case Nil
  then show ?case by simp
next
  case (Cons use uses)
  define n where "n = length (usage_blocks e)"
  define rest where "rest = concat (map (\<lambda>use. map (Pair use) [0..<n]) uses)"
  have split: "spec_steps py (concat (map (\<lambda>use. map (Pair use) [0..<n]) (use # uses))) (e, w, p)
      = bind_result (spec_steps py (map (Pair use) [0..<n]) (e, w, p)) (spec_steps py rest)"
    by (simp add: spec_steps_append rest_def)
  note pass = strategy_pass_spec [of py use e w log p, folded n_def]
  show ?case
  proof (cases "strategy_pass py use (e, w, log)")
    case (Inl err)
    with pass have "spec_steps py (map (Pair use) [0..<n]) (e, w, p) = Inl err"
      by (simp split: sum.splits prod.splits)
    with Inl split show ?thesis by (simp add: bind_result_def n_def)
  next
    case (Inr st1)
    obtain e1 w1 log1 where st1: "st1 = (e1, w1, log1)" by (cases st1) auto
    with Inr pass obtain p1 where
      s: "spec_steps py (map (Pair use) [0..<n]) (e, w, p) = Inr (e1, w1, p1)"
      by (auto split: sum.splits prod.splits)
    from strategy_pass_log [OF Inr [unfolded st1]]
    have len: "length (usage_blocks e1) = n" by (auto simp: n_def)
    from Cons.IH [of e1 w1 log1 p1] len
    have "(case strategies_loop py uses (e1, w1, log1) of
            Inl err \<Rightarrow> Inl err | Inr (e2, w2, log2) \<Rightarrow> Inr (e2, w2))
        = (case spec_steps py rest (e1, w1, p1) of
            Inl err \<Rightarrow> Inl err | Inr (e2, w2, p2) \<Rightarrow> Inr (e2, w2))"
      by (simp add: rest_def)
    with Inr st1 s split show ?thesis by (simp add: bind_result_def n_def)
  qed
qed

lemma process_usage_blocks_spec:
  "without_log (process_usage_blocks py doctree e w) = spec_process_usage_blocks py doctree e w"
proof -
  define steps where "steps = concat (map (\<lambda>use. map (Pair use) [0..<length (usage_blocks e)])
                     MetaUsage_members)"
  note loop = strategies_loop_spec
    [of py MetaUsage_members e "w\<lparr>cwd := srcdir e\<rparr>" "[]" "[]", folded steps_def]
  show ?thesis
  proof (cases "strategies_loop py MetaUsage_members (e, w\<lparr>cwd := srcdir e\<rparr>, [])")
    case (Inl err)
    with loop have "spec_steps py steps (e, w\<lparr>cwd := srcdir e\<rparr>, []) = Inl err"
      by (simp split: sum.splits prod.splits)
    with Inl show ?thesis
      by (simp add: without_log_def process_usage_blocks_def spec_process_usage_blocks_def
          bind_result_def steps_def)
  next
    case (Inr st1)
    obtain e1 w1 log1 where st1: "st1 = (e1, w1, log1)" by (cases st1) auto
    with Inr loop obtain p1 where
      s: "spec_steps py steps (e, w\<lparr>cwd := srcdir e\<rparr>, []) = Inr (e1, w1, p1)"
      by (auto split: sum.splits prod.splits)
    with Inr st1 show ?thesis
      by (simp add: without_log_def process_usage_blocks_def spec_process_usage_blocks_def
          bind_result_def steps_def split: sum.splits)
  qed
qed

lemma api_loop_code_tree:
  "api_loop use rs blk w = Inr (blk', w') \<Longrightarrow> code blk' = code blk \<and> tree blk' = tree blk"
proof (induction rs arbitrary: blk)
  case Nil
  then show ?case by simp
next
  case (Cons r rs)
  consider (data) "source r = ''init_data''"
    | (meta) "source r \<noteq> ''init_data''" "source r = ''init_metadata''"
    | (action) "source r \<noteq> ''init_data''" "source r \<noteq> ''init_metadata''"
        "source r = ''action''"
    | (other) "source r \<noteq> ''init_data''" "source r \<noteq> ''init_metadata''"
        "source r \<noteq> ''action''"
    by blast
  then show ?case
  proof cases
    case data
    with Cons.prems obtain dn where
      "api_loop use rs (blk\<lparr>nodes := nodes blk @ [dn]\<rparr>) w = Inr (blk', w')"
      by (auto split: sum.splits)
    from Cons.IH [OF this] show ?thesis by simp
  next
    case meta
    with Cons.prems obtain dn where
      "api_loop use rs (blk\<lparr>nodes := nodes blk @ [dn]\<rparr>) w = Inr (blk', w')"
      by (auto split: sum.splits)
    from Cons.IH [OF this] show ?thesis by simp
  next
    case action
    with Cons.prems have "append_example use blk w = Inr (blk', w')" by simp
    then show ?thesis
      by (auto simp: append_example_def split: list.splits prod.splits node_kind.splits)
  next
    case other
    with Cons.prems have "api_loop use rs blk w = Inr (blk', w')" by simp
    from Cons.IH [OF this] show ?thesis .
  qed
qed

lemma cli_loop_code_tree:
  "cli_loop use rs blk w = (blk', w') \<Longrightarrow> code blk' = code blk \<and> tree blk' = tree blk"
  by (induction rs) (auto split: if_splits prod.splits)

lemma records_to_nodes_code_tree:
  assumes "records_to_nodes py use recs blk e w = Inr (blk', w')"
  shows "code blk' = code blk \<and> tree blk' = tree blk"
proof (cases use)
  case DiagnosticUsage
  with assms show ?thesis
    using diagnostic_frame [of py use recs blk e w blk' w']
    by (simp add: records_to_nodes_def)
next
  case CLIUsage
  with assms obtain rs where "cli_loop use rs blk w = (blk', w')"
    by (cases recs) (auto simp: records_to_nodes_def cli_def)
  from cli_loop_code_tree [OF this] show ?thesis .
next
  case ArtifactAPIUsage
  with assms obtain rs where "api_loop use rs blk w = Inr (blk', w')"
    by (cases recs) (auto simp: records_to_nodes_def artifact_api_def)
  from api_loop_code_tree [OF this] show ?thesis .
next
  case ExecutionUsage
  with assms have ex: "execution use recs blk e w = Inr (blk', w')"
    by (simp add: records_to_nodes_def)
  show ?thesis
  proof (cases "factory (hd (nodes blk))")
    case False
    with execution_nodes [OF ex] show ?thesis by simp
  next
    case True
    with execution_nodes [OF ex] have "factories_to_nodes blk e = Inr blk'" by simp
    from factories_to_nodes_nodes [OF this] show ?thesis by auto
  qed
next
  case OtherUsage
  with assms show ?thesis by (simp add: records_to_nodes_def)
qed

lemma process_block_trees:
  assumes "process_block py use i (e, w, p, log) = Inr (e', w', p', log')"
    and "i < length (usage_blocks e)"
  shows "length (usage_blocks e') = length (usage_blocks e)
         \<and> (\<forall>j < length (usage_blocks e). j \<noteq> i \<longrightarrow> usage_blocks e' ! j = usage_blocks e ! j)
         \<and> code (usage_blocks e' ! i) = code (usage_blocks e ! i)
         \<and> (\<exists>t. ast_parse py (code (usage_blocks e ! i)) = Inr t
                \<and> tree (usage_blocks e' ! i) = Some t)"
proof -
  from process_block_cases [OF assms(1)] obtain t v1 rs blk2 where
    t: "ast_parse py (code (usage_blocks e ! i)) = Inr t"
    and d: "records_to_nodes py use (Tuple rs) ((usage_blocks e ! i)\<lparr>tree := Some t\<rparr>) e v1
               = Inr (blk2, w')"
    and e': "e' = e\<lparr>usage_blocks := (usage_blocks e)[i := blk2]\<rparr>"
    by blast
  from records_to_nodes_code_tree [OF d]
  have "code blk2 = code (usage_blocks e ! i)" "tree blk2 = Some t" by simp_all
  with t e' assms(2) show ?thesis by simp
qed

lemma blocks_loop_trees:
  assumes "blocks_loop py use [i..<i + m] (e, w, p, log) = Inr (e', w', p', log')"
    and "i + m \<le> length (usage_blocks e)"
  shows "length (usage_blocks e') = length (usage_blocks e)
         \<and> (\<forall>j < length (usage_blocks e).
               code (usage_blocks e' ! j) = code (usage_blocks e ! j)
               \<and> (if i \<le> j \<and> j < i + m
                   then \<exists>t. ast_parse py (code (usage_blocks e ! j)) = Inr t
                           \<and> tree (usage_blocks e' ! j) = Some t
                   else tree (usage_blocks e' ! j) = tree (usage_blocks e ! j)))"
  using assms
proof (induction m arbitrary: i e w p log)
  case 0
  then show ?case by auto
next
  case (Suc m)
  have upt: "[i..<i + Suc m] = i # [Suc i..<Suc i + m]"
    by (simp add: upt_conv_Cons)
  from Suc.prems(1) upt obtain st1 where
    st1: "process_block py use i (e, w, p, log) = Inr st1"
    and rest0: "blocks_loop py use [Suc i..<Suc i + m] st1 = Inr (e', w', p', log')"
    by (cases "process_block py use i (e, w, p, log)") auto
  obtain e1 w1 p1 log1 where st1_eq: "st1 = (e1, w1, p1, log1)"
    by (cases st1) auto
  from Suc.prems(2) have i: "i < length (usage_blocks e)" by simp
  from process_block_trees [OF st1 [unfolded st1_eq] i] obtain t where
    l1: "length (usage_blocks e1) = length (usage_blocks e)"
    and o1: "\<And>j. j < length (usage_blocks e) \<Longrightarrow> j \<noteq> i \<Longrightarrow>
               usage_blocks e1 ! j = usage_blocks e ! j"
    and c1: "code (usage_blocks e1 ! i) = code (usage_blocks e ! i)"
    and t1: "ast_parse py (code (usage_blocks e ! i)) = Inr t" "tree (usage_blocks e1 ! i) = Some t"
    by blast
  from Suc.prems(2) l1 have "Suc i + m \<le> length (usage_blocks e1)" by simp
  from Suc.IH [OF rest0 [unfolded st1_eq] this] have
    l2: "length (usage_blocks e') = length (usage_blocks e1)"
    and b2: "\<And>j. j < length (usage_blocks e1) \<Longrightarrow>
               code (usage_blocks e' ! j) = code (usage_blocks e1 ! j)
               \<and> (if Suc i \<le> j \<and> j < Suc i + m
                   then \<exists>t. ast_parse py (code (usage_blocks e1 ! j)) = Inr t
                           \<and> tree (usage_blocks e' ! j) = Some t
                   else tree (usage_blocks e' ! j) = tree (usage_blocks e1 ! j))"
    by auto
  show ?case
  proof (intro conjI allI impI)
    show "length (usage_blocks e') = length (usage_blocks e)" using l1 l2 by simp
  next
    fix j
    assume j: "j < length (usage_blocks e)"
    show "code (usage_blocks e' ! j) = code (usage_blocks e ! j)"
      using b2 [of j] o1 [of j] c1 j l1 by (cases "j = i") auto
  next
    fix j
    assume j: "j < length (usage_blocks e)"
    show "if i \<le> j \<and> j < i + Suc m
          then \<exists>t. ast_parse py (code (usage_blocks e ! j)) = Inr t
                  \<and> tree (usage_blocks e' ! j) = Some t
          else tree (usage_blocks e' ! j) = tree (usage_blocks e ! j)"
    proof (cases "j = i")
      case True
      with b2 [of j] j l1 t1 show ?thesis by auto
    next
      case False
      with b2 [of j] o1 [of j] j l1 show ?thesis by (auto split: if_splits)
    qed
  qed
qed

lemma strategy_pass_trees:
  assumes "strategy_pass py use (e, w, log) = Inr (e', w', log')"
  shows "length (usage_blocks e') = length (usage_blocks e)
         \<and> (\<forall>j < length (usage_blocks e).
               code (usage_blocks e' ! j) = code (usage_blocks e ! j)
               \<and> (\<exists>t. ast_parse py (code (usage_blocks e ! j)) = Inr t
                      \<and> tree (usage_blocks e' ! j) = Some t))"
proof -
  from assms obtain p' where
    "blocks_loop py use [0..<0 + length (usage_blocks e)] (e, w, [], log) = Inr (e', w', p', log')"
    by (auto simp: strategy_pass_def split: sum.splits)
  from blocks_loop_trees [OF this] show ?thesis by auto
qed

lemma strategies_loop_trees:
  assumes "strategies_loop py uses (e, w, log) = Inr (e', w', log')" and "uses \<noteq> []"
  shows "length (usage_blocks e') = length (usage_blocks e)
         \<and> (\<forall>j < length (usage_blocks e).
               code (usage_blocks e' ! j) = code (usage_blocks e ! j)
               \<and> (\<exists>t. ast_parse py (code (usage_blocks e ! j)) = Inr t
                      \<and> tree (usage_blocks e' ! j) = Some t))"
  using assms
proof (induction uses arbitrary: e w log)
  case Nil
  then show ?case by simp
next
  case (Cons use uses)
  from Cons.prems(1) obtain st1 where
    st1: "strategy_pass py use (e, w, log) = Inr st1"
    and rest0: "strategies_loop py uses st1 = Inr (e', w', log')"
    by (cases "strategy_pass py use (e, w, log)") auto
  obtain e1 w1 log1 where st1_eq: "st1 = (e1, w1, log1)"
    by (cases st1) auto
  note first = strategy_pass_trees [OF st1 [unfolded st1_eq]]
  show ?case
  proof (cases "uses = []")
    case True
    with rest0 st1_eq have "e' = e1" by simp
    with first show ?thesis by simp
  next
    case False
    from Cons.IH [OF rest0 [unfolded st1_eq] False] first show ?thesis by auto
  qed
qed

text \<open>
  C7. When \<open>process_usage_blocks\<close> returns:

  \<^item> the calls it has made, the calls of the dispatcher left out, are: for each strategy
    in the order diagnostic, command-line, artifact-API, execution, for each block in
    the order of \<open>env.usage_blocks\<close>, one parse of the block's source followed by one
    execution of it under that strategy; and after the last block of the last strategy,
    one call of the node updater. So every block is parsed four times and executed once
    under each strategy, and the node updater runs once, last;
  \<^item> the document, the environment and the world it returns are those of the processor
    as the spec describes it, \<open>spec_process_usage_blocks\<close>: the steps (strategy, block)
    in that order, each one parsing the block's source with \<open>ast_parse\<close>, running the
    tree with \<open>exec\<close> under the strategy on the world the step before left, dispatching
    the new records and extending the processed list, which starts empty at the first
    block of each strategy; then the node updater on the outcome. The two are equal
    on every input, also when a step raises;
  \<^item> every block keeps its source and holds the tree that \<open>ast_parse\<close> returns for it,
    and the returned document is the node updater's result on the returned environment
    and world.

  The order of the strategies is the order of the enumeration \<open>MetaUsage\<close>, taken from
  the spec.
\<close>

theorem process_usage_blocks_order:
  assumes "process_usage_blocks py doctree e w = Inr (doctree', e', w', log)"
  shows "filter not_dispatch log
           = concat (map (\<lambda>use. concat (map (\<lambda>i. [Parsed i, Executed use i])
                                           [0..<length (usage_blocks e)]))
                       [DiagnosticUsage, CLIUsage, ArtifactAPIUsage, ExecutionUsage])
             @ [Updated]
         \<and> MetaUsage_members = [DiagnosticUsage, CLIUsage, ArtifactAPIUsage, ExecutionUsage]
         \<and> (\<forall>i < length (usage_blocks e).
               count_list log (Parsed i) = 4
               \<and> (\<forall>use \<in> set MetaUsage_members. count_list log (Executed use i) = 1))
         \<and> count_list log Updated = 1
         \<and> last log = Updated
         \<and> without_log (process_usage_blocks py doctree e w)
             = spec_process_usage_blocks py doctree e w
         \<and> spec_process_usage_blocks py doctree e w = Inr (doctree', e', w')
         \<and> length (usage_blocks e') = length (usage_blocks e)
         \<and> (\<forall>i < length (usage_blocks e).
               code (usage_blocks e' ! i) = code (usage_blocks e ! i)
               \<and> (\<exists>t. ast_parse py (code (usage_blocks e ! i)) = Inr t
                      \<and> tree (usage_blocks e' ! i) = Some t))
         \<and> update_nodes doctree e' w' = Inr doctree'"
proof -
  from process_usage_blocks_log [OF assms] obtain rsss where
    len: "length rsss = length MetaUsage_members"
    and log: "log = passes_events MetaUsage_members rsss @ [Updated]"
    and all: "\<forall>rss \<in> set rsss. length rss = length (usage_blocks e)"
    and loop: "strategies_loop py MetaUsage_members (e, w\<lparr>cwd := srcdir e\<rparr>, [])
               = Inr (e', w', passes_events MetaUsage_members rsss)"
    and upd: "update_nodes doctree e' w' = Inr doctree'"
    by blast
  define n where "n = length (usage_blocks e)"
  define A where "A = (\<lambda>use. concat (map (\<lambda>i. [Parsed i, Executed use i]) [0..<n]))"
  have f: "filter not_dispatch log
      = concat (map A [DiagnosticUsage, CLIUsage, ArtifactAPIUsage, ExecutionUsage]) @ [Updated]"
    using filter_passes_events [OF len, of n] all log
    by (simp add: n_def A_def MetaUsage_members_def)
  have cp: "count_list log (Parsed i) = 4" if "i < n" for i
  proof -
    have "count_list log (Parsed i) = count_list (filter not_dispatch log) (Parsed i)"
      by (simp add: count_list_not_dispatch)
    also have "\<dots> = 4"
      using that by (simp add: f A_def count_list_one_pass)
    finally show ?thesis .
  qed
  have ce: "count_list log (Executed use i) = 1"
    if "i < n" "use \<in> set MetaUsage_members" for i use
  proof -
    have "count_list log (Executed use i) = count_list (filter not_dispatch log) (Executed use i)"
      by (simp add: count_list_not_dispatch)
    also have "\<dots> = 1"
      using that by (auto simp: f A_def count_list_one_pass MetaUsage_members_def)
    finally show ?thesis .
  qed
  have cu: "count_list log Updated = 1"
  proof -
    have "count_list log Updated = count_list (filter not_dispatch log) Updated"
      by (simp add: count_list_not_dispatch)
    also have "\<dots> = 1"
      by (simp add: f A_def count_list_one_pass)
    finally show ?thesis .
  qed
  have la: "last log = Updated" using log by simp
  have spec: "without_log (process_usage_blocks py doctree e w)
             = spec_process_usage_blocks py doctree e w"
    by (rule process_usage_blocks_spec)
  with assms have spec_run: "spec_process_usage_blocks py doctree e w = Inr (doctree', e', w')"
    by (simp add: without_log_def)
  have ne: "MetaUsage_members \<noteq> []" by (simp add: MetaUsage_members_def)
  from strategies_loop_trees [OF loop ne] have
    l: "length (usage_blocks e') = length (usage_blocks e)"
    and trees: "\<forall>i < length (usage_blocks e).
               code (usage_blocks e' ! i) = code (usage_blocks e ! i)
               \<and> (\<exists>t. ast_parse py (code (usage_blocks e ! i)) = Inr t
                      \<and> tree (usage_blocks e' ! i) = Some t)"
    by simp_all
  have first: "filter not_dispatch log
           = concat (map (\<lambda>use. concat (map (\<lambda>i. [Parsed i, Executed use i])
                                           [0..<length (usage_blocks e)]))
                       [DiagnosticUsage, CLIUsage, ArtifactAPIUsage, ExecutionUsage])
             @ [Updated]"
    using f by (simp add: n_def A_def)
  have counts: "\<forall>i < length (usage_blocks e).
               count_list log (Parsed i) = 4
               \<and> (\<forall>use \<in> set MetaUsage_members. count_list log (Executed use i) = 1)"
    using cp ce by (simp add: n_def)
  have members: "MetaUsage_members = [DiagnosticUsage, CLIUsage, ArtifactAPIUsage, ExecutionUsage]"
    by (simp add: MetaUsage_members_def)
  show ?thesis
    using first members counts cu la spec spec_run l trees upd
    by (intro conjI)
qed

text \<open>
  Witness for C7: the example build with two blocks, run with an \<open>exec\<close> that leaves a
  mark in the world at every call. The blocks start without a tree and end with the
  parsed one; the world ends with eight marks, one per strategy and block, the results
  directory having been made by the execution handler in the pass of the last
  strategy.
\<close>

theorem process_usage_blocks_order_witness:
  "\<not> isl (process_usage_blocks ex_python_marking ex_doctree (ex_env ex_blocks) ex_world)
   \<and> filter not_dispatch
       (snd (snd (snd (projr
          (process_usage_blocks ex_python_marking ex_doctree (ex_env ex_blocks) ex_world)))))
     = [Parsed 0, Executed DiagnosticUsage 0, Parsed 1, Executed DiagnosticUsage 1,
        Parsed 0, Executed CLIUsage 0, Parsed 1, Executed CLIUsage 1,
        Parsed 0, Executed ArtifactAPIUsage 0, Parsed 1, Executed ArtifactAPIUsage 1,
        Parsed 0, Executed ExecutionUsage 0, Parsed 1, Executed ExecutionUsage 1,
        Updated]
   \<and> map tree (usage_blocks (ex_env ex_blocks)) = [None, None]
   \<and> map tree (usage_blocks (fst (snd (projr
          (process_usage_blocks ex_python_marking ex_doctree (ex_env ex_blocks) ex_world)))))
       = [Some (), Some ()]
   \<and> dirs ex_world = []
   \<and> dirs (fst (snd (snd (projr
          (process_usage_blocks ex_python_marking ex_doctree (ex_env ex_blocks) ex_world)))))
       = [''x'', ''x'', ''x'', ''x'', ''x'', ''x'', ''x'', ''o/i/results'', ''x'']
   \<and> \<not> isl (spec_process_usage_blocks ex_python_marking ex_doctree (ex_env ex_blocks) ex_world)
   \<and> fst (projr (spec_process_usage_blocks ex_python_marking ex_doctree (ex_env ex_blocks)
          ex_world))
       = fst (projr (process_usage_blocks ex_python_marking ex_doctree (ex_env ex_blocks)
          ex_world))"
proof -
  define X where
    "X = process_usage_blocks ex_python_marking ex_doctree (ex_env ex_blocks) ex_world"
  have a: "\<not> isl X" unfolding X_def by code_simp
  have n: "length (usage_blocks (ex_env ex_blocks)) = 2"
    by (simp add: ex_env_def ex_blocks_def)
  have t0: "map tree (usage_blocks (ex_env ex_blocks)) = [None, None]" by code_simp
  have t1: "map tree (usage_blocks (fst (snd (projr X)))) = [Some (), Some ()]"
    unfolding X_def by code_simp
  have d0: "dirs ex_world = []" by code_simp
  have d1: "dirs (fst (snd (snd (projr X))))
       = [''x'', ''x'', ''x'', ''x'', ''x'', ''x'', ''x'', ''o/i/results'', ''x'']"
    unfolding X_def by code_simp
  from a have d: "process_usage_blocks ex_python_marking ex_doctree (ex_env ex_blocks) ex_world
      = Inr (fst (projr X), fst (snd (projr X)), fst (snd (snd (projr X))),
             snd (snd (snd (projr X))))"
    unfolding X_def
    by (cases "process_usage_blocks ex_python_marking ex_doctree (ex_env ex_blocks) ex_world")
      auto
  have u: "[0..<2] = [0, Suc 0]" by (simp add: upt_conv_Cons)
  note th = process_usage_blocks_order [OF d]
  from th n u
  have l: "filter not_dispatch (snd (snd (snd (projr X))))
     = [Parsed 0, Executed DiagnosticUsage 0, Parsed 1, Executed DiagnosticUsage 1,
        Parsed 0, Executed CLIUsage 0, Parsed 1, Executed CLIUsage 1,
        Parsed 0, Executed ArtifactAPIUsage 0, Parsed 1, Executed ArtifactAPIUsage 1,
        Parsed 0, Executed ExecutionUsage 0, Parsed 1, Executed ExecutionUsage 1,
        Updated]"
    by simp
  from th have s: "spec_process_usage_blocks ex_python_marking ex_doctree (ex_env ex_blocks)
        ex_world = Inr (fst (projr X), fst (snd (projr X)), fst (snd (snd (projr X))))"
    by (elim conjE)
  from a l t0 t1 d0 d1 s show ?thesis unfolding X_def by simp
qed

subsection \<open>C2: the dispatcher receives only new records\<close>

lemma dispatched_in_pass:
  assumes "Dispatched u j recs q \<in> set (pass_events use i p rss)"
  shows "u = use \<and> i \<le> j \<and> j < i + length rss \<and> recs = Tuple (rss ! (j - i))
         \<and> q = p @ concat (map (map ref) (take (j - i) rss))"
  using assms
proof (induction rss arbitrary: i p)
  case Nil
  then show ?case by simp
next
  case (Cons rs rss)
  from Cons.prems consider
    (head) "u = use" "j = i" "recs = Tuple rs" "q = p"
    | (tail) "Dispatched u j recs q \<in> set (pass_events use (Suc i) (p @ map ref rs) rss)"
    by auto
  then show ?case
  proof cases
    case head
    then show ?thesis by simp
  next
    case tail
    from Cons.IH [OF tail] have
      a: "u = use" "Suc i \<le> j" "j < Suc i + length rss"
      "recs = Tuple (rss ! (j - Suc i))"
      "q = (p @ map ref rs) @ concat (map (map ref) (take (j - Suc i) rss))"
      by auto
    from a(2) have "j - i = Suc (j - Suc i)" by simp
    with a show ?thesis by simp
  qed
qed

lemma pass_dispatches:
  assumes "j < length rss"
  shows "Dispatched use (i + j) (Tuple (rss ! j)) (p @ concat (map (map ref) (take j rss)))
           \<in> set (pass_events use i p rss)"
  using assms
proof (induction rss arbitrary: i p j)
  case Nil
  then show ?case by simp
next
  case (Cons rs rss)
  show ?case
  proof (cases j)
    case 0
    then show ?thesis by simp
  next
    case (Suc k)
    with Cons.prems have "k < length rss" by simp
    from Cons.IH [OF this, of "Suc i" "p @ map ref rs"] Suc show ?thesis by simp
  qed
qed

lemma dispatched_in_passes:
  assumes "Dispatched u j recs q \<in> set (passes_events uses rsss)"
  shows "\<exists>k. k < length uses \<and> k < length rsss \<and> uses ! k = u \<and> j < length (rsss ! k)
             \<and> recs = Tuple (rsss ! k ! j)
             \<and> q = concat (map (map ref) (take j (rsss ! k)))"
  using assms
proof (induction uses rsss rule: passes_events.induct)
  case (1 use uses rss rsss)
  from "1.prems" consider
    (here) "Dispatched u j recs q \<in> set (pass_events use 0 [] rss)"
    | (later) "Dispatched u j recs q \<in> set (passes_events uses rsss)"
    by auto
  then show ?case
  proof cases
    case here
    from dispatched_in_pass [OF here] show ?thesis
      by (intro exI [of _ 0]) simp
  next
    case later
    from "1.IH" [OF later] obtain k where
      "k < length uses" "k < length rsss" "uses ! k = u" "j < length (rsss ! k)"
      "recs = Tuple (rsss ! k ! j)" "q = concat (map (map ref) (take j (rsss ! k)))"
      by blast
    then show ?thesis
      by (intro exI [of _ "Suc k"]) simp
  qed
qed simp_all

lemma passes_dispatches:
  assumes "k < length uses" and "k < length rsss" and "j < length (rsss ! k)"
  shows "Dispatched (uses ! k) j (Tuple (rsss ! k ! j))
            (concat (map (map ref) (take j (rsss ! k))))
           \<in> set (passes_events uses rsss)"
  using assms
proof (induction uses rsss arbitrary: k rule: passes_events.induct)
  case (1 use uses rss rsss)
  show ?case
  proof (cases k)
    case 0
    with "1.prems" pass_dispatches [of j rss use 0 "[]"] show ?thesis by simp
  next
    case (Suc k')
    with "1.prems" "1.IH" [of k'] show ?thesis by simp
  qed
qed simp_all

lemma fresh_refs_nth:
  assumes "fresh_refs p rss" and "j < length rss"
  shows "set (map ref (rss ! j)) \<inter> (set p \<union> set (concat (map (map ref) (take j rss)))) = {}"
  using assms
proof (induction rss arbitrary: p j)
  case Nil
  then show ?case by simp
next
  case (Cons rs rss)
  show ?case
  proof (cases j)
    case 0
    with Cons.prems show ?thesis by auto
  next
    case (Suc k)
    with Cons.prems have "fresh_refs (p @ map ref rs) rss" "k < length rss" by simp_all
    from Cons.IH [OF this] Suc show ?thesis by auto
  qed
qed

lemma take_split:
  assumes "i < j" and "i < length xs"
  shows "take j xs = take i xs @ xs ! i # drop (Suc i) (take j xs)"
proof -
  have "take j xs = take (Suc i) (take j xs) @ drop (Suc i) (take j xs)"
    by (rule append_take_drop_id [symmetric])
  moreover from assms(1) have "take (Suc i) (take j xs) = take (Suc i) xs"
    by (simp add: min_def)
  moreover from assms(2) have "take (Suc i) xs = take i xs @ [xs ! i]"
    by (rule take_Suc_conv_app_nth)
  ultimately show ?thesis by simp
qed

text \<open>
  C2. Assume the usage-recording facility stores every record under its own reference,
  initially and after every execution of a block. When \<open>process_usage_blocks\<close>
  returns, then for every strategy and every block the dispatcher has been called, and
  for every call: the records it received form a tuple and none of their references is
  in the processed list of that moment; the processed list of the first block of a
  strategy is empty; the processed list of a later block of the same strategy starts
  with the processed list of an earlier block followed by the references of the
  records dispatched for that earlier block; hence two blocks of the same strategy
  never receive a record with the same reference.
\<close>

theorem dispatch_only_new_records:
  assumes run: "process_usage_blocks py doctree e w = Inr (doctree', e', w', log)"
    and keys: "scopes_ok w"
    and ex: "\<forall>t u v v1. scopes_ok v \<longrightarrow> exec py t u v = Inr v1 \<longrightarrow> scopes_ok v1"
  shows "(\<forall>use i recs p. Dispatched use i recs p \<in> set log \<longrightarrow>
            (\<exists>rs. recs = Tuple rs \<and> set (map ref rs) \<inter> set p = {}))
         \<and> (\<forall>use recs p. Dispatched use 0 recs p \<in> set log \<longrightarrow> p = [])
         \<and> (\<forall>use i j rs p recs' p'.
               Dispatched use i (Tuple rs) p \<in> set log
               \<and> Dispatched use j recs' p' \<in> set log \<and> i < j \<longrightarrow>
               (\<exists>more. p' = p @ map ref rs @ more))
         \<and> (\<forall>use i j rs p rs' p'.
               Dispatched use i (Tuple rs) p \<in> set log
               \<and> Dispatched use j (Tuple rs') p' \<in> set log \<and> i < j \<longrightarrow>
               set (map ref rs) \<inter> set (map ref rs') = {})
         \<and> (\<forall>use \<in> set MetaUsage_members. \<forall>i < length (usage_blocks e).
               \<exists>recs p. Dispatched use i recs p \<in> set log)"
proof -
  from process_usage_blocks_log [OF run] keys ex obtain rsss where
    len: "length rsss = length MetaUsage_members"
    and log: "log = passes_events MetaUsage_members rsss @ [Updated]"
    and all: "\<forall>rss \<in> set rsss. length rss = length (usage_blocks e)"
    and fresh: "\<forall>rss \<in> set rsss. fresh_refs [] rss"
    by blast
  have dist: "distinct MetaUsage_members"
    by (simp add: MetaUsage_members_def)
  have mem: "\<exists>k. k < length rsss \<and> MetaUsage_members ! k = use \<and> j < length (rsss ! k)
             \<and> recs = Tuple (rsss ! k ! j)
             \<and> q = concat (map (map ref) (take j (rsss ! k)))"
    if "Dispatched use j recs q \<in> set log" for use j recs q
  proof -
    from that log have "Dispatched use j recs q \<in> set (passes_events MetaUsage_members rsss)"
      by simp
    from dispatched_in_passes [OF this] show ?thesis by blast
  qed
  have same: "k1 = k2"
    if "k1 < length rsss" "k2 < length rsss"
      "MetaUsage_members ! k1 = MetaUsage_members ! k2" for k1 k2
    using that dist len by (simp add: nth_eq_iff_index_eq)
  have p1: "\<exists>rs. recs = Tuple rs \<and> set (map ref rs) \<inter> set p = {}"
    if d: "Dispatched use i recs p \<in> set log" for use i recs p
  proof -
    from mem [OF d] obtain k where k: "k < length rsss" "i < length (rsss ! k)"
      "recs = Tuple (rsss ! k ! i)" "p = concat (map (map ref) (take i (rsss ! k)))"
      by blast
    from k(1) fresh have "fresh_refs [] (rsss ! k)" by simp
    from fresh_refs_nth [OF this k(2)] k show ?thesis by simp
  qed
  have p2: "p = []" if d: "Dispatched use 0 recs p \<in> set log" for use recs p
    using mem [OF d] by auto
  have p3: "\<exists>more. p' = p @ map ref rs @ more"
    if d1: "Dispatched use i (Tuple rs) p \<in> set log"
      and d2: "Dispatched use j recs' p' \<in> set log" and lt: "i < j"
    for use i j rs p recs' p'
  proof -
    from mem [OF d1] obtain k1 where k1: "k1 < length rsss" "MetaUsage_members ! k1 = use"
      "i < length (rsss ! k1)" "rs = rsss ! k1 ! i"
      "p = concat (map (map ref) (take i (rsss ! k1)))"
      by auto
    from mem [OF d2] obtain k2 where k2: "k2 < length rsss" "MetaUsage_members ! k2 = use"
      "j < length (rsss ! k2)" "p' = concat (map (map ref) (take j (rsss ! k2)))"
      by auto
    from same [OF k1(1) k2(1)] k1(2) k2(2) have eq: "k2 = k1" by simp
    from take_split [OF lt k1(3)] have
      "take j (rsss ! k1) = take i (rsss ! k1) @ rsss ! k1 ! i # drop (Suc i) (take j (rsss ! k1))" .
    then have "concat (map (map ref) (take j (rsss ! k1)))
        = concat (map (map ref) (take i (rsss ! k1))) @ map ref (rsss ! k1 ! i)
          @ concat (map (map ref) (drop (Suc i) (take j (rsss ! k1))))"
      by (metis concat.simps(2) concat_append list.simps(9) map_append)
    with k1 k2 eq show ?thesis by blast
  qed
  have p4: "set (map ref rs) \<inter> set (map ref rs') = {}"
    if d1: "Dispatched use i (Tuple rs) p \<in> set log"
      and d2: "Dispatched use j (Tuple rs') p' \<in> set log" and lt: "i < j"
    for use i j rs p rs' p'
  proof -
    from p3 [OF d1 d2 lt] obtain more where "p' = p @ map ref rs @ more" by blast
    moreover from p1 [OF d2] have "set (map ref rs') \<inter> set p' = {}" by simp
    ultimately show ?thesis by auto
  qed
  have p5: "\<exists>recs p. Dispatched use i recs p \<in> set log"
    if u: "use \<in> set MetaUsage_members" and i: "i < length (usage_blocks e)" for use i
  proof -
    from u obtain k where k: "k < length MetaUsage_members" "MetaUsage_members ! k = use"
      by (auto simp: in_set_conv_nth)
    with len all i have "k < length rsss" "i < length (rsss ! k)" by auto
    from passes_dispatches [OF k(1) this] k(2) log show ?thesis by auto
  qed
  show ?thesis
  proof (intro conjI allI impI ballI)
    fix use i recs p
    assume "Dispatched use i recs p \<in> set log"
    then show "\<exists>rs. recs = Tuple rs \<and> set (map ref rs) \<inter> set p = {}" by (rule p1)
  next
    fix use recs p
    assume "Dispatched use 0 recs p \<in> set log"
    then show "p = []" by (rule p2)
  next
    fix use i j rs p recs' p'
    assume "Dispatched use i (Tuple rs) p \<in> set log
               \<and> Dispatched use j recs' p' \<in> set log \<and> i < j"
    then show "\<exists>more. p' = p @ map ref rs @ more" using p3 by blast
  next
    fix use i j rs p rs' p'
    assume "Dispatched use i (Tuple rs) p \<in> set log
               \<and> Dispatched use j (Tuple rs') p' \<in> set log \<and> i < j"
    then show "set (map ref rs) \<inter> set (map ref rs') = {}" using p4 by blast
  next
    fix use i
    assume "use \<in> set MetaUsage_members" "i < length (usage_blocks e)"
    then show "\<exists>recs p. Dispatched use i recs p \<in> set log" by (rule p5)
  qed
qed

lemma ex_python_keeps_scopes:
  "\<forall>t u v v1. scopes_ok v \<longrightarrow> exec ex_python t u v = Inr v1 \<longrightarrow> scopes_ok v1"
proof (intro allI impI)
  fix t :: unit and u v v1
  assume ok: "scopes_ok v" and run: "exec ex_python t u v = Inr v1"
  have d: "keys_are_refs ex_dict" by code_simp
  from run have v1: "v1 = v\<lparr>MetaUsage := (MetaUsage v)(u := (MetaUsage v u)\<lparr>records := ex_dict\<rparr>)\<rparr>"
    by (simp add: ex_python_def)
  show "scopes_ok v1"
    unfolding scopes_ok_iff
  proof
    fix c
    from ok have "keys_are_refs (records (MetaUsage v c))" by (simp add: scopes_ok_iff)
    with d v1 show "keys_are_refs (records (MetaUsage v1 c))" by simp
  qed
qed

text \<open>
  Witness for C2: in the example build both blocks record the same two references;
  under the execution strategy the first block receives both records, the second none.
\<close>

theorem dispatch_only_new_records_witness:
  "\<not> isl (process_usage_blocks ex_python ex_doctree (ex_env ex_blocks) ex_world)
   \<and> scopes_ok ex_world
   \<and> Dispatched ExecutionUsage 0 (Tuple [ex_metadata, ex_artifact]) []
       \<in> set (snd (snd (snd (projr
            (process_usage_blocks ex_python ex_doctree (ex_env ex_blocks) ex_world)))))
   \<and> Dispatched ExecutionUsage 1 (Tuple []) [''m'', ''a'']
       \<in> set (snd (snd (snd (projr
            (process_usage_blocks ex_python ex_doctree (ex_env ex_blocks) ex_world)))))
   \<and> set (map ref [ex_metadata, ex_artifact]) \<inter> set (map ref ([] :: ScopeRecord list)) = {}"
proof -
  define X where "X = process_usage_blocks ex_python ex_doctree (ex_env ex_blocks) ex_world"
  have a: "\<not> isl X" unfolding X_def by code_simp
  have ok: "scopes_ok ex_world" by code_simp
  have m0: "Dispatched ExecutionUsage 0 (Tuple [ex_metadata, ex_artifact]) []
       \<in> set (snd (snd (snd (projr X))))"
    unfolding X_def by code_simp
  have m1: "Dispatched ExecutionUsage 1 (Tuple []) [''m'', ''a'']
       \<in> set (snd (snd (snd (projr X))))"
    unfolding X_def by code_simp
  from a have d: "process_usage_blocks ex_python ex_doctree (ex_env ex_blocks) ex_world
      = Inr (fst (projr X), fst (snd (projr X)), fst (snd (snd (projr X))),
             snd (snd (snd (projr X))))"
    unfolding X_def
    by (cases "process_usage_blocks ex_python ex_doctree (ex_env ex_blocks) ex_world") auto
  have c4: "set (map ref rs) \<inter> set (map ref rs') = {}"
    if "Dispatched use i (Tuple rs) p \<in> set (snd (snd (snd (projr X))))"
      "Dispatched use j (Tuple rs') p' \<in> set (snd (snd (snd (projr X))))" "i < j"
    for use i j rs p rs' p'
    using dispatch_only_new_records [OF d ok ex_python_keeps_scopes] that by blast
  have "set (map ref [ex_metadata, ex_artifact]) \<inter> set (map ref ([] :: ScopeRecord list)) = {}"
    by (rule c4 [OF m0 m1]) simp
  with a ok m0 m1 show ?thesis unfolding X_def by blast
qed

subsection \<open>C6: the node updater\<close>

text \<open>
  The second loop of \<open>update_nodes\<close> pairs the factory nodes of the document with the
  blocks, so it visits at most as many factory nodes as there are blocks. The lemmas
  below show that this is every factory node, when the run starts without factory
  nodes: only the execution handler creates factory nodes, at most one per call, and it
  is called once per block.
\<close>

lemma factory_count_simps:
  "factory_count [] = 0"
  "factory_count (xs @ ys) = factory_count xs + factory_count ys"
  "factory_count (n # ns) = (if is_FactoryNode (Usage n) then 1 else 0) + factory_count ns"
  by (simp_all add: factory_count_def)

lemma factory_count_butlast: "factory_count (butlast ns) \<le> factory_count ns"
proof (cases ns rule: rev_cases)
  case Nil
  then show ?thesis by simp
next
  case (snoc xs x)
  then show ?thesis by (simp add: factory_count_simps)
qed

lemma factory_count_init_nodes:
  assumes "list_all2 (\<lambda>r n. (source r = ''init_data'' \<and> init_data_node r w = Inr n)
                           \<or> (source r = ''init_metadata'' \<and> init_metadata_node r w = Inr n))
             xs ns"
  shows "factory_count ns = 0"
  using assms
proof (induction xs ns rule: list_all2_induct)
  case Nil
  then show ?case by (simp add: factory_count_simps)
next
  case (Cons r xs n ns)
  from Cons.hyps(1) have "\<not> is_FactoryNode (Usage n)"
    using init_data_node_kind [of r w n] init_metadata_node_kind [of r w n] by auto
  with Cons.IH show ?case by (simp add: factory_count_simps)
qed

lemma cli_factory_count:
  assumes "cli use recs blk e w = Inr (blk', w')"
  shows "factory_count (nodes blk') \<le> factory_count (nodes blk)"
proof -
  from assms obtain rs where rs: "recs = Tuple rs"
    by (cases recs) (auto simp: cli_def)
  show ?thesis
  proof (cases "\<exists>r \<in> set rs. source r = ''action''")
    case True
    with assms rs have "nodes blk' = [UsageExampleNode [''Command Line'']
                        [Str (py_join (rendering (MetaUsage w use)))]]"
      using cli_loop_action [of rs use blk w] by (auto simp: cli_def)
    then show ?thesis by (simp add: factory_count_simps UsageExampleNode_def)
  next
    case False
    with assms rs have "blk' = blk"
      using cli_loop_no_action [of rs use blk w] by (simp add: cli_def)
    then show ?thesis by simp
  qed
qed

lemma artifact_api_factory_count:
  assumes "artifact_api use recs blk e w = Inr (blk', w')"
  shows "factory_count (nodes blk') \<le> factory_count (nodes blk)"
proof -
  from assms obtain rs where rs: "recs = Tuple rs"
    by (cases recs) (auto simp: artifact_api_def)
  with assms have "api_loop use rs blk w = Inr (blk', w')"
    by (simp add: artifact_api_def)
  from api_loop_result [OF this] obtain ns where
    l: "list_all2 (\<lambda>r n. (source r = ''init_data'' \<and> init_data_node r w = Inr n)
                           \<or> (source r = ''init_metadata'' \<and> init_metadata_node r w = Inr n))
                 (filter (\<lambda>r. source r = ''init_data'' \<or> source r = ''init_metadata'')
                    (takeWhile (\<lambda>r. source r \<noteq> ''action'') rs)) ns"
    and c: "if \<exists>r \<in> set rs. source r = ''action''
              then \<exists>n others titles examples.
                     nodes blk @ ns = n # others \<and> kind n = Example titles examples
                     \<and> nodes blk' = n\<lparr>kind := Example (titles @ [''Artifact API''])
                                   (examples @ [rendering (MetaUsage w use)])\<rparr> # others
                     \<and> w' = snd (render use w)
              else nodes blk' = nodes blk @ ns \<and> w' = w"
    by blast
  note z = factory_count_init_nodes [OF l]
  show ?thesis
  proof (cases "\<exists>r \<in> set rs. source r = ''action''")
    case False
    with c z show ?thesis by (simp add: factory_count_simps)
  next
    case True
    with c obtain n others titles examples where
      eq: "nodes blk @ ns = n # others" and k: "kind n = Example titles examples"
      and n': "nodes blk' = n\<lparr>kind := Example (titles @ [''Artifact API''])
                                   (examples @ [rendering (MetaUsage w use)])\<rparr> # others"
      by auto
    from n' k have "factory_count (nodes blk') = factory_count (n # others)"
      by (simp add: factory_count_simps)
    also from eq have "\<dots> = factory_count (nodes blk @ ns)" by simp
    also from z have "\<dots> = factory_count (nodes blk)" by (simp add: factory_count_simps)
    finally show ?thesis by simp
  qed
qed

lemma execution_factory_count:
  assumes "execution use recs blk e w = Inr (blk', w')"
  shows "factory_count (nodes blk') \<le> factory_count (nodes blk) + 1"
proof (cases "factory (hd (nodes blk))")
  case False
  with execution_nodes [OF assms] show ?thesis by simp
next
  case True
  with execution_nodes [OF assms] have "factories_to_nodes blk e = Inr blk'" by simp
  from factories_to_nodes_nodes [OF this] obtain fn where
    "nodes blk' = butlast (nodes blk) @ [fn]"
    by auto
  then show ?thesis
    using factory_count_butlast [of "nodes blk"] by (simp add: factory_count_simps)
qed

lemma records_to_nodes_factory_count:
  assumes "records_to_nodes py use recs blk e w = Inr (blk', w')"
  shows "factory_count (nodes blk')
           \<le> factory_count (nodes blk) + (if use = ExecutionUsage then 1 else 0)"
proof (cases use)
  case DiagnosticUsage
  with assms show ?thesis
    using diagnostic_frame [of py use recs blk e w blk' w']
    by (simp add: records_to_nodes_def)
next
  case CLIUsage
  with assms show ?thesis
    using cli_factory_count [of use recs blk e w blk' w']
    by (simp add: records_to_nodes_def)
next
  case ArtifactAPIUsage
  with assms show ?thesis
    using artifact_api_factory_count [of use recs blk e w blk' w']
    by (simp add: records_to_nodes_def)
next
  case ExecutionUsage
  with assms show ?thesis
    using execution_factory_count [of use recs blk e w blk' w']
    by (simp add: records_to_nodes_def)
next
  case OtherUsage
  with assms show ?thesis
    by (simp add: records_to_nodes_def)
qed

lemma process_block_factory_count:
  assumes "process_block py use i (e, w, p, log) = Inr (e', w', p', log')"
    and "i < length (usage_blocks e)"
  shows "length (usage_blocks e') = length (usage_blocks e)
         \<and> (\<forall>j < length (usage_blocks e).
               factory_count (nodes (usage_blocks e' ! j))
                 \<le> factory_count (nodes (usage_blocks e ! j))
                    + (if j = i \<and> use = ExecutionUsage then 1 else 0))"
proof -
  from process_block_cases [OF assms(1)] obtain t v1 rs blk2 where
    d: "records_to_nodes py use (Tuple rs) ((usage_blocks e ! i)\<lparr>tree := Some t\<rparr>) e v1
               = Inr (blk2, w')"
    and e': "e' = e\<lparr>usage_blocks := (usage_blocks e)[i := blk2]\<rparr>"
    by blast
  from records_to_nodes_factory_count [OF d]
  have b: "factory_count (nodes blk2)
      \<le> factory_count (nodes (usage_blocks e ! i)) + (if use = ExecutionUsage then 1 else 0)"
    by simp
  show ?thesis
  proof (intro conjI allI impI)
    show "length (usage_blocks e') = length (usage_blocks e)" using e' by simp
  next
    fix j
    assume j: "j < length (usage_blocks e)"
    show "factory_count (nodes (usage_blocks e' ! j))
                 \<le> factory_count (nodes (usage_blocks e ! j))
                    + (if j = i \<and> use = ExecutionUsage then 1 else 0)"
    proof (cases "j = i")
      case True
      with e' assms(2) b show ?thesis by simp
    next
      case False
      with e' show ?thesis by simp
    qed
  qed
qed

lemma blocks_loop_factory_count:
  assumes "blocks_loop py use [i..<i + m] (e, w, p, log) = Inr (e', w', p', log')"
    and "i + m \<le> length (usage_blocks e)"
  shows "length (usage_blocks e') = length (usage_blocks e)
         \<and> (\<forall>j < length (usage_blocks e).
               factory_count (nodes (usage_blocks e' ! j))
                 \<le> factory_count (nodes (usage_blocks e ! j))
                    + (if i \<le> j \<and> j < i + m \<and> use = ExecutionUsage then 1 else 0))"
  using assms
proof (induction m arbitrary: i e w p log)
  case 0
  then show ?case by simp
next
  case (Suc m)
  have upt: "[i..<i + Suc m] = i # [Suc i..<Suc i + m]"
    by (simp add: upt_conv_Cons)
  from Suc.prems(1) upt obtain st1 where
    st1: "process_block py use i (e, w, p, log) = Inr st1"
    and rest0: "blocks_loop py use [Suc i..<Suc i + m] st1 = Inr (e', w', p', log')"
    by (cases "process_block py use i (e, w, p, log)") auto
  obtain e1 w1 p1 log1 where st1_eq: "st1 = (e1, w1, p1, log1)"
    by (cases st1) auto
  from Suc.prems(2) have i: "i < length (usage_blocks e)" by simp
  from process_block_factory_count [OF st1 [unfolded st1_eq] i] have
    l1: "length (usage_blocks e1) = length (usage_blocks e)"
    and b1: "\<And>j. j < length (usage_blocks e) \<Longrightarrow>
               factory_count (nodes (usage_blocks e1 ! j))
                 \<le> factory_count (nodes (usage_blocks e ! j))
                    + (if j = i \<and> use = ExecutionUsage then 1 else 0)"
    by auto
  from Suc.prems(2) l1 have "Suc i + m \<le> length (usage_blocks e1)" by simp
  from Suc.IH [OF rest0 [unfolded st1_eq] this] have
    l2: "length (usage_blocks e') = length (usage_blocks e1)"
    and b2: "\<And>j. j < length (usage_blocks e1) \<Longrightarrow>
               factory_count (nodes (usage_blocks e' ! j))
                 \<le> factory_count (nodes (usage_blocks e1 ! j))
                    + (if Suc i \<le> j \<and> j < Suc i + m \<and> use = ExecutionUsage then 1 else 0)"
    by auto
  show ?case
  proof (intro conjI allI impI)
    show "length (usage_blocks e') = length (usage_blocks e)" using l1 l2 by simp
  next
    fix j
    assume j: "j < length (usage_blocks e)"
    from b1 [OF j] b2 [of j] j l1
    show "factory_count (nodes (usage_blocks e' ! j))
                 \<le> factory_count (nodes (usage_blocks e ! j))
                    + (if i \<le> j \<and> j < i + Suc m \<and> use = ExecutionUsage then 1 else 0)"
      by (auto split: if_splits)
  qed
qed

lemma strategy_pass_factory_count:
  assumes "strategy_pass py use (e, w, log) = Inr (e', w', log')"
  shows "length (usage_blocks e') = length (usage_blocks e)
         \<and> (\<forall>j < length (usage_blocks e).
               factory_count (nodes (usage_blocks e' ! j))
                 \<le> factory_count (nodes (usage_blocks e ! j))
                    + (if use = ExecutionUsage then 1 else 0))"
proof -
  from assms obtain p' where
    "blocks_loop py use [0..<0 + length (usage_blocks e)] (e, w, [], log) = Inr (e', w', p', log')"
    by (auto simp: strategy_pass_def split: sum.splits)
  from blocks_loop_factory_count [OF this] show ?thesis by auto
qed

lemma strategies_loop_factory_count:
  assumes "strategies_loop py uses (e, w, log) = Inr (e', w', log')"
  shows "length (usage_blocks e') = length (usage_blocks e)
         \<and> (\<forall>j < length (usage_blocks e).
               factory_count (nodes (usage_blocks e' ! j))
                 \<le> factory_count (nodes (usage_blocks e ! j))
                    + count_list uses ExecutionUsage)"
  using assms
proof (induction uses arbitrary: e w log)
  case Nil
  then show ?case by simp
next
  case (Cons use uses)
  from Cons.prems obtain st1 where
    st1: "strategy_pass py use (e, w, log) = Inr st1"
    and rest0: "strategies_loop py uses st1 = Inr (e', w', log')"
    by (cases "strategy_pass py use (e, w, log)") auto
  obtain e1 w1 log1 where st1_eq: "st1 = (e1, w1, log1)"
    by (cases st1) auto
  from strategy_pass_factory_count [OF st1 [unfolded st1_eq]] have
    l1: "length (usage_blocks e1) = length (usage_blocks e)"
    and b1: "\<And>j. j < length (usage_blocks e) \<Longrightarrow>
               factory_count (nodes (usage_blocks e1 ! j))
                 \<le> factory_count (nodes (usage_blocks e ! j))
                    + (if use = ExecutionUsage then 1 else 0)"
    by auto
  from Cons.IH [OF rest0 [unfolded st1_eq]] have
    l2: "length (usage_blocks e') = length (usage_blocks e1)"
    and b2: "\<And>j. j < length (usage_blocks e1) \<Longrightarrow>
               factory_count (nodes (usage_blocks e' ! j))
                 \<le> factory_count (nodes (usage_blocks e1 ! j))
                    + count_list uses ExecutionUsage"
    by auto
  show ?case
  proof (intro conjI allI impI)
    show "length (usage_blocks e') = length (usage_blocks e)" using l1 l2 by simp
  next
    fix j
    assume j: "j < length (usage_blocks e)"
    from b1 [OF j] b2 [of j] j l1
    show "factory_count (nodes (usage_blocks e' ! j))
                 \<le> factory_count (nodes (usage_blocks e ! j))
                    + count_list (use # uses) ExecutionUsage"
      by (auto split: if_splits)
  qed
qed

lemma replace_placeholders_factories:
  assumes "\<forall>b \<in> set bs. factory_count (nodes b) \<le> 1"
    and "\<forall>x \<in> set doc. \<not> is_FactoryNode x"
  shows "length (filter is_FactoryNode (replace_placeholders bs doc)) \<le> length bs"
  using assms
proof (induction bs doc rule: replace_placeholders.induct)
  case (1 doc)
  then show ?case by (simp add: filter_empty_conv)
next
  case (2 b bs)
  then show ?case by simp
next
  case (3 b bs doc)
  then show ?case by simp
next
  case (4 b bs n doc)
  have "filter is_FactoryNode (map Usage (nodes b))
      = map Usage (filter (\<lambda>n. is_FactoryNode (Usage n)) (nodes b))"
    by (simp add: filter_map comp_def)
  then have "length (filter is_FactoryNode (map Usage (nodes b))) = factory_count (nodes b)"
    by (simp add: factory_count_def)
  with 4 show ?case by auto
qed

lemma set_preview_other:
  "\<not> is_FactoryNode (Usage n) \<Longrightarrow> set_preview ex n = Inr n"
  by (cases "kind n") (simp_all add: set_preview_def)

lemma preview_factories_all:
  assumes "preview_factories ex bs doc = Inr doc'"
    and "length (filter is_FactoryNode doc) \<le> length bs"
  shows "list_all2 (\<lambda>x y. case x of Other \<Rightarrow> y = Other
                          | Usage n \<Rightarrow> (\<exists>n'. set_preview ex n = Inr n' \<and> y = Usage n'))
           doc doc'"
  using assms
proof (induction ex bs doc arbitrary: doc' rule: preview_factories.induct)
  case (1 ex doc)
  then have "doc' = doc" and nf: "\<forall>x \<in> set doc. \<not> is_FactoryNode x"
    by (auto simp: filter_empty_conv)
  have "list_all2 (\<lambda>x y. case x of Other \<Rightarrow> y = Other
                          | Usage n \<Rightarrow> (\<exists>n'. set_preview ex n = Inr n' \<and> y = Usage n'))
           doc doc"
  proof (rule list_all2_all_nthI)
    show "length doc = length doc" by simp
  next
    fix i
    assume "i < length doc"
    with nf have "\<not> is_FactoryNode (doc ! i)" by simp
    then show "case doc ! i of Other \<Rightarrow> doc ! i = Other
                | Usage n \<Rightarrow> (\<exists>n'. set_preview ex n = Inr n' \<and> doc ! i = Usage n')"
      using set_preview_other [of _ ex] by (cases "doc ! i") auto
  qed
  with \<open>doc' = doc\<close> show ?case by simp
next
  case (2 ex b bs)
  then show ?case by simp
next
  case (3 ex b bs doc)
  from "3.prems"(1) obtain d where d: "preview_factories ex (b # bs) doc = Inr d"
    and doc': "doc' = Other # d"
    by (auto split: sum.splits)
  from "3.prems"(2) have "length (filter is_FactoryNode doc) \<le> length (b # bs)" by simp
  from "3.IH" [OF d this] doc' show ?case by simp
next
  case (4 ex b bs n doc)
  show ?case
  proof (cases "is_FactoryNode (Usage n)")
    case True
    with "4.prems"(1) obtain n' d where n': "set_preview ex n = Inr n'"
      and d: "preview_factories ex bs doc = Inr d" and doc': "doc' = Usage n' # d"
      by (auto split: sum.splits)
    from "4.prems"(2) True have "length (filter is_FactoryNode doc) \<le> length bs" by simp
    from "4.IH"(1) [OF True n' d this] n' doc' show ?thesis by simp
  next
    case False
    with "4.prems"(1) obtain d where d: "preview_factories ex (b # bs) doc = Inr d"
      and doc': "doc' = Usage n # d"
      by (auto split: sum.splits)
    from "4.prems"(2) False have "length (filter is_FactoryNode doc) \<le> length (b # bs)"
      by simp
    from "4.IH"(2) [OF False d this] doc' set_preview_other [OF False, of ex]
    show ?thesis by simp
  qed
qed

lemma usage_nodes_append: "usage_nodes (xs @ ys) = usage_nodes xs @ usage_nodes ys"
  by (induction xs rule: usage_nodes.induct) simp_all

lemma usage_nodes_map: "usage_nodes (map Usage ns) = ns"
  by (induction ns) simp_all

lemma usage_nodes_replace:
  "usage_nodes (replace_placeholders bs doc)
     = concat (map nodes (take (length (usage_nodes doc)) bs))
       @ drop (length bs) (usage_nodes doc)"
  by (induction bs doc rule: replace_placeholders.induct)
    (simp_all add: usage_nodes_append usage_nodes_map)

lemma others_replace:
  "filter (\<lambda>x. x = Other) (replace_placeholders bs doc) = filter (\<lambda>x. x = Other) doc"
proof (induction bs doc rule: replace_placeholders.induct)
  case (4 b bs n doc)
  have "filter (\<lambda>x. x = Other) (map Usage (nodes b)) = []"
    by (simp add: filter_empty_conv)
  with 4 show ?case by simp
qed simp_all

lemma set_preview_result:
  assumes "set_preview ex n = Inr n'"
  shows "(\<forall>rel ab saveas r pv. kind n = Factory rel ab saveas r pv \<longrightarrow>
            (\<exists>er. get_record ex r = Inr er
               \<and> n' = n\<lparr>kind := Factory rel ab saveas r
                          (case result er of Metadata df \<Rightarrow> Some df | _ \<Rightarrow> pv)\<rparr>))
         \<and> (\<not> is_FactoryNode (Usage n) \<longrightarrow> n' = n)"
proof (cases "kind n")
  case (Factory rel ab saveas r pv)
  with assms obtain er where er: "get_record ex r = Inr er"
    by (cases "get_record ex r") (auto simp: set_preview_def)
  from assms Factory er have "n' = n\<lparr>kind := Factory rel ab saveas r
                          (case result er of Metadata df \<Rightarrow> Some df | _ \<Rightarrow> pv)\<rparr>"
    by (cases "result er") (auto simp: set_preview_def)
  with Factory er show ?thesis by simp
qed (use assms in \<open>simp_all add: set_preview_def\<close>)

lemma Updated_not_in_pass: "Updated \<notin> set (pass_events use i p rss)"
  by (induction rss arbitrary: i p) simp_all

lemma Updated_not_in_passes: "Updated \<notin> set (passes_events uses rsss)"
  by (induction uses rsss rule: passes_events.induct) (simp_all add: Updated_not_in_pass)

text \<open>
  C6. Assume that neither the document nor the node lists of the blocks hold a factory
  node when \<open>process_usage_blocks\<close> is called. When it returns, the node updater has
  run once, after the loop over all strategies and blocks, on the blocks and usage
  objects which that loop left. The usage nodes of the document, paired in order with
  the blocks, have been replaced by the node lists of their blocks (a usage node
  without a block stays, other nodes stay). After that, every factory node of the
  document has been looked up in the execution usage object by its reference and
  carries the text of the result's dataframe as preview if the result is a
  \<open>Metadata\<close>, and is unchanged otherwise; every other node is unchanged.
\<close>

theorem update_nodes_after_strategies:
  assumes run: "process_usage_blocks py doctree e w = Inr (doctree', e', w', log)"
    and nodoc: "\<forall>x \<in> set doctree. \<not> is_FactoryNode x"
    and noblk: "\<forall>b \<in> set (usage_blocks e). factory_count (nodes b) = 0"
  shows "(\<exists>log0. log = log0 @ [Updated] \<and> Updated \<notin> set log0
            \<and> strategies_loop py MetaUsage_members (e, w\<lparr>cwd := srcdir e\<rparr>, [])
                = Inr (e', w', log0))
         \<and> usage_nodes (replace_placeholders (usage_blocks e') doctree)
             = concat (map nodes (take (length (usage_nodes doctree)) (usage_blocks e')))
               @ drop (length (usage_blocks e')) (usage_nodes doctree)
         \<and> filter (\<lambda>x. x = Other) (replace_placeholders (usage_blocks e') doctree)
             = filter (\<lambda>x. x = Other) doctree
         \<and> list_all2 (\<lambda>x y. case x of Other \<Rightarrow> y = Other
                          | Usage n \<Rightarrow>
                              (\<exists>n'. set_preview (MetaUsage w' ExecutionUsage) n = Inr n'
                                  \<and> y = Usage n'))
             (replace_placeholders (usage_blocks e') doctree) doctree'
         \<and> (\<forall>n n'. set_preview (MetaUsage w' ExecutionUsage) n = Inr n' \<longrightarrow>
               (\<forall>rel ab saveas r pv. kind n = Factory rel ab saveas r pv \<longrightarrow>
                  (\<exists>er. get_record (MetaUsage w' ExecutionUsage) r = Inr er
                     \<and> n' = n\<lparr>kind := Factory rel ab saveas r
                                (case result er of Metadata df \<Rightarrow> Some df | _ \<Rightarrow> pv)\<rparr>))
               \<and> (\<not> is_FactoryNode (Usage n) \<longrightarrow> n' = n))"
proof -
  from process_usage_blocks_log [OF run] obtain rsss where
    log: "log = passes_events MetaUsage_members rsss @ [Updated]"
    and loop: "strategies_loop py MetaUsage_members (e, w\<lparr>cwd := srcdir e\<rparr>, [])
               = Inr (e', w', passes_events MetaUsage_members rsss)"
    and upd: "update_nodes doctree e' w' = Inr doctree'"
    by blast
  have once: "\<exists>log0. log = log0 @ [Updated] \<and> Updated \<notin> set log0
            \<and> strategies_loop py MetaUsage_members (e, w\<lparr>cwd := srcdir e\<rparr>, [])
                = Inr (e', w', log0)"
    using log loop Updated_not_in_passes by blast
  have one: "count_list MetaUsage_members ExecutionUsage = 1"
    by (simp add: MetaUsage_members_def)
  from strategies_loop_factory_count [OF loop] one have
    len: "length (usage_blocks e') = length (usage_blocks e)"
    and cnt: "\<And>j. j < length (usage_blocks e) \<Longrightarrow>
               factory_count (nodes (usage_blocks e' ! j))
                 \<le> factory_count (nodes (usage_blocks e ! j)) + 1"
    by auto
  have le1: "\<forall>b \<in> set (usage_blocks e'). factory_count (nodes b) \<le> 1"
  proof
    fix b
    assume "b \<in> set (usage_blocks e')"
    then obtain j where j: "j < length (usage_blocks e')" "usage_blocks e' ! j = b"
      by (auto simp: in_set_conv_nth)
    with len noblk have "factory_count (nodes (usage_blocks e ! j)) = 0" by simp
    with cnt [of j] j len show "factory_count (nodes b) \<le> 1" by simp
  qed
  from replace_placeholders_factories [OF le1 nodoc]
  have few: "length (filter is_FactoryNode (replace_placeholders (usage_blocks e') doctree))
      \<le> length (usage_blocks e')" .
  from upd have "preview_factories (MetaUsage w' ExecutionUsage) (usage_blocks e')
       (replace_placeholders (usage_blocks e') doctree) = Inr doctree'"
    by (simp add: update_nodes_def)
  from preview_factories_all [OF this few]
  have all: "list_all2 (\<lambda>x y. case x of Other \<Rightarrow> y = Other
                          | Usage n \<Rightarrow>
                              (\<exists>n'. set_preview (MetaUsage w' ExecutionUsage) n = Inr n'
                                  \<and> y = Usage n'))
             (replace_placeholders (usage_blocks e') doctree) doctree'" .
  show ?thesis
    using once all usage_nodes_replace [of "usage_blocks e'" doctree]
      others_replace [of "usage_blocks e'" doctree] set_preview_result
    by (intro conjI allI impI) blast+
qed

text \<open>
  Witness for C6: the example build. The first placeholder is replaced by the three
  nodes of its block, the second by the factory node of its block, which has received
  the preview of the metadata record \<open>m\<close>.
\<close>

theorem update_nodes_after_strategies_witness:
  "\<not> isl (process_usage_blocks ex_python ex_doctree (ex_env ex_blocks) ex_world)
   \<and> filter is_FactoryNode ex_doctree = []
   \<and> map (\<lambda>b. factory_count (nodes b)) (usage_blocks (ex_env ex_blocks)) = [0, 0]
   \<and> fst (projr (process_usage_blocks ex_python ex_doctree (ex_env ex_blocks) ex_world))
       = [Usage ex_placeholder,
          Usage (UsageMetadataNode
                   (''m = qiime2.Metadata.load('' @ [CHR 0x27] @ ''m.qza'' @ [CHR 0x27] @ '')'')
                   ''df'' ''m''),
          Usage (UsageDataNode ''T''
                   (''a = qiime2.Artifact.load('' @ [CHR 0x27] @ ''a.qza'' @ [CHR 0x27] @ '')'')
                   ''a''),
          Other,
          Usage ((FactoryNode ''results/m.qza'' ''u/i/results/m.qza'' ''m.qza'' (Some ''m''))
                   \<lparr>kind := Factory ''results/m.qza'' ''u/i/results/m.qza'' ''m.qza''
                              (Some ''m'') (Some ''df'')\<rparr>)]"
proof -
  define X where "X = process_usage_blocks ex_python ex_doctree (ex_env ex_blocks) ex_world"
  have a: "\<not> isl X" unfolding X_def by code_simp
  have b: "filter is_FactoryNode ex_doctree = []" by code_simp
  have c: "map (\<lambda>b. factory_count (nodes b)) (usage_blocks (ex_env ex_blocks)) = [0, 0]"
    by code_simp
  have r: "fst (projr X)
       = [Usage ex_placeholder,
          Usage (UsageMetadataNode
                   (''m = qiime2.Metadata.load('' @ [CHR 0x27] @ ''m.qza'' @ [CHR 0x27] @ '')'')
                   ''df'' ''m''),
          Usage (UsageDataNode ''T''
                   (''a = qiime2.Artifact.load('' @ [CHR 0x27] @ ''a.qza'' @ [CHR 0x27] @ '')'')
                   ''a''),
          Other,
          Usage ((FactoryNode ''results/m.qza'' ''u/i/results/m.qza'' ''m.qza'' (Some ''m''))
                   \<lparr>kind := Factory ''results/m.qza'' ''u/i/results/m.qza'' ''m.qza''
                              (Some ''m'') (Some ''df'')\<rparr>)]"
    unfolding X_def by code_simp
  from a have d: "process_usage_blocks ex_python ex_doctree (ex_env ex_blocks) ex_world
      = Inr (fst (projr X), fst (snd (projr X)), fst (snd (snd (projr X))),
             snd (snd (snd (projr X))))"
    unfolding X_def
    by (cases "process_usage_blocks ex_python ex_doctree (ex_env ex_blocks) ex_world") auto
  from b have nodoc: "\<forall>x \<in> set ex_doctree. \<not> is_FactoryNode x"
    by (simp add: filter_empty_conv)
  from c have noblk: "\<forall>b \<in> set (usage_blocks (ex_env ex_blocks)). factory_count (nodes b) = 0"
    by (simp add: ex_env_def ex_blocks_def)
  note th = update_nodes_after_strategies [OF d nodoc noblk]
  from th have "\<exists>log0. snd (snd (snd (projr X))) = log0 @ [Updated]" by blast
  with a b c r show ?thesis unfolding X_def by simp
qed

end
